theory Spec2Isabelle
  imports Complex_Main
begin

section \<open>The Squirrel lazy data loader (data_loader.py)\<close>

text \<open>
  Python integers are unbounded, so ranks, world sizes, positions and counters are
  \<^typ>\<open>int\<close>. Lists of examples are HOL lists. An exception raised by the source is a
  value of \<open>error\<close> on the left of a sum: a division by zero, \<^verbatim>\<open>max()\<close> of an empty
  sequence (a \<^verbatim>\<open>ValueError\<close>), and the \<^verbatim>\<open>raise NotImplementedError\<close> of the fields.
\<close>

datatype error = ZeroDivisionError | ValueError | NotImplementedError

subsection \<open>Python slicing\<close>

text \<open>
  \<^verbatim>\<open>data[start:stop]\<close> on a list: a negative bound counts from the end, every bound
  is clamped to the list, and a stop before the start gives the empty list.
\<close>

definition py_slice :: "'a list \<Rightarrow> int \<Rightarrow> int \<Rightarrow> 'a list" where
  "py_slice xs start stop =
     (let n = int (length xs);
          lo = (if start < 0 then max 0 (n + start) else min start n);
          hi = (if stop < 0 then max 0 (n + stop) else min stop n)
      in take (nat (hi - lo)) (drop (nat lo) xs))"

subsection \<open>DistributedBatch\<close>

text \<open>
  The positions computed by \<^verbatim>\<open>DistributedBatch.__init__\<close> (lines 350 to 357) from
  \<^verbatim>\<open>len(data)\<close>, \<^verbatim>\<open>world_size\<close> and \<^verbatim>\<open>local_rank\<close>. The source divides with
  \<^verbatim>\<open>math.floor(big_batch_size / world_size)\<close>, a float division followed by floor; for
  list lengths (far below \<open>2 ^ 52\<close>) that is the integer floor quotient, which is
  \<open>div\<close> on \<^typ>\<open>int\<close> for either sign of the divisor. Division by a zero
  \<^verbatim>\<open>world_size\<close> raises.
\<close>

definition shard_positions :: "int \<Rightarrow> int \<Rightarrow> int \<Rightarrow> error + (int \<times> int)" where
  "shard_positions big_batch_size world_size local_rank =
     (if world_size = 0 then Inl ZeroDivisionError
      else
        let mini_batch_size = big_batch_size div world_size;
            additional_size = big_batch_size - mini_batch_size * world_size;
            start_pos = (if additional_size > local_rank then local_rank else additional_size);
            start_pos = start_pos + local_rank * mini_batch_size;
            end_pos = (if additional_size > local_rank + 1 then local_rank + 1 else additional_size);
            end_pos = end_pos + (local_rank + 1) * mini_batch_size
        in Inr (start_pos, end_pos))"

text \<open>
  The examples that the batch of rank \<^verbatim>\<open>local_rank\<close> keeps: \<^verbatim>\<open>data[start_pos: end_pos]\<close>
  (line 362). This is the constructor up to line 364; the rest of it, which hands the
  examples kept to the fields and may raise there, is \<open>DistributedBatch_init\<close> below.
\<close>

definition DistributedBatch :: "'a list \<Rightarrow> int \<Rightarrow> int \<Rightarrow> error + 'a list" where
  "DistributedBatch data world_size local_rank =
     (case shard_positions (int (length data)) world_size local_rank of
        Inl e \<Rightarrow> Inl e
      | Inr (start_pos, end_pos) \<Rightarrow> Inr (py_slice data start_pos end_pos))"

text \<open>
  The offset that the specification writes for the start of rank \<open>R\<close>:
  \<open>R * base + min(R, remainder)\<close> with \<open>base = floor(B / W)\<close> and
  \<open>remainder = B - base * W\<close>. It is compared with the positions of the source below.
\<close>

definition spec_shard_start :: "int \<Rightarrow> int \<Rightarrow> int \<Rightarrow> int" where
  "spec_shard_start B W R = R * (B div W) + min R (B - (B div W) * W)"

subsection \<open>fetch_batch\<close>

text \<open>
  The default \<^verbatim>\<open>batch_size_fn\<close> of \<^verbatim>\<open>fetch_batch\<close> (lines 82 to 84), also the function
  that \<^verbatim>\<open>DataLoader\<close> installs when \<^verbatim>\<open>args.batch_size == 1\<close> (line 553): it returns
  \<^verbatim>\<open>count\<close>. Costs live in an ordered ring \<open>'c\<close>, so that integer and fractional
  costs are covered; an integer is read into it by \<open>of_int\<close>.
\<close>

definition count_batch_size_fn :: "'a \<Rightarrow> int \<Rightarrow> 'c \<Rightarrow> ('c::linordered_idom)" where
  "count_batch_size_fn new count sofar = of_int count"

text \<open>The variables that the loop of \<^verbatim>\<open>fetch_batch\<close> updates.\<close>

record ('a, 'c) fetch_state =
  minibatch :: "'a list"
  size_so_far :: 'c
  reserved_minibatch :: "'a list"

text \<open>
  The \<^verbatim>\<open>for it, ex in enumerate(data)\<close> loop (lines 93 to 109) over the examples still to
  come, from index \<open>it\<close>. The result is the list of the batches yielded inside the loop,
  in order, and the state when the data is exhausted. \<^verbatim>\<open>minibatch[:-1]\<close> is
  \<open>butlast\<close> and \<^verbatim>\<open>minibatch[-1:]\<close> keeps the last element.
\<close>

fun fetch_loop ::
  "('a \<Rightarrow> int \<Rightarrow> 'c \<Rightarrow> 'c) \<Rightarrow> ('c::linordered_idom) \<Rightarrow> int \<Rightarrow> bool \<Rightarrow> int \<Rightarrow> 'a list
     \<Rightarrow> ('a, 'c) fetch_state \<Rightarrow> 'a list list \<times> ('a, 'c) fetch_state" where
  "fetch_loop batch_size_fn batch_size world_size reserve it [] st = ([], st)"
| "fetch_loop batch_size_fn batch_size world_size reserve it (ex # rest) st =
     (if reserve \<and> it < world_size then
        fetch_loop batch_size_fn batch_size world_size reserve (it + 1) rest
          (st\<lparr>reserved_minibatch := reserved_minibatch st @ [ex]\<rparr>)
      else
        let mb = minibatch st @ [ex];
            sz = batch_size_fn ex (int (length mb)) (size_so_far st)
        in if sz = batch_size * of_int world_size \<and> int (length mb) > world_size then
             apfst ((#) mb)
               (fetch_loop batch_size_fn batch_size world_size reserve (it + 1) rest
                  (st\<lparr>minibatch := [], size_so_far := 0\<rparr>))
           else if sz > batch_size * of_int world_size \<and> int (length mb) > world_size + 1 then
             apfst ((#) (butlast mb))
               (fetch_loop batch_size_fn batch_size world_size reserve (it + 1) rest
                  (st\<lparr>minibatch := drop (length mb - 1) mb, size_so_far := batch_size_fn ex 1 0\<rparr>))
           else
             fetch_loop batch_size_fn batch_size world_size reserve (it + 1) rest
               (st\<lparr>minibatch := mb, size_so_far := sz\<rparr>))"

text \<open>
  \<^verbatim>\<open>fetch_batch\<close> on a finite input: every batch it yields, in order. The last element is
  the batch of the unconditional \<^verbatim>\<open>yield minibatch\<close> after the loop (line 113), to which
  the reserved examples are appended first when \<^verbatim>\<open>reserve\<close> is set (line 112).
  \<^verbatim>\<open>batch_size_fn=None\<close> selects the counting function.
\<close>

definition fetch_batch ::
  "'a list \<Rightarrow> ('c::linordered_idom) \<Rightarrow> ('a \<Rightarrow> int \<Rightarrow> 'c \<Rightarrow> 'c) option \<Rightarrow> int \<Rightarrow> bool
     \<Rightarrow> 'a list list" where
  "fetch_batch data batch_size batch_size_fn world_size reserve =
     (let fn = (case batch_size_fn of None \<Rightarrow> count_batch_size_fn | Some f \<Rightarrow> f);
          r = fetch_loop fn batch_size world_size reserve 0 data
                \<lparr>minibatch = [], size_so_far = 0, reserved_minibatch = []\<rparr>;
          st = snd r;
          final = (if reserve then minibatch st @ reserved_minibatch st else minibatch st)
      in fst r @ [final])"

text \<open>
  The cost that the loop accumulates for a batch: starting from an empty batch and cost
  \<open>0\<close>, each example \<open>ex\<close> appended at position \<open>n\<close> turns the cost \<open>c\<close> into
  \<^verbatim>\<open>batch_size_fn(ex, n, c)\<close> (line 102).
\<close>

fun accumulate :: "('a \<Rightarrow> int \<Rightarrow> 'c \<Rightarrow> 'c) \<Rightarrow> int \<Rightarrow> 'c \<Rightarrow> 'a list \<Rightarrow> 'c" where
  "accumulate batch_size_fn n c [] = c"
| "accumulate batch_size_fn n c (ex # rest) =
     accumulate batch_size_fn (n + 1) (batch_size_fn ex (n + 1) c) rest"

definition batch_cost :: "('a \<Rightarrow> int \<Rightarrow> 'c \<Rightarrow> 'c) \<Rightarrow> 'a list \<Rightarrow> ('c::zero)" where
  "batch_cost batch_size_fn batch = accumulate batch_size_fn 0 0 batch"

subsection \<open>The dynamic batching functions of DataLoader\<close>

text \<open>
  An example of the translation data set has the token sequences \<^verbatim>\<open>src\<close> and \<^verbatim>\<open>trg\<close>.
  The division \<^verbatim>\<open>sofar / (i - 1)\<close> of \<^verbatim>\<open>dyn_batch_with_padding\<close> is taken exactly, in
  \<^typ>\<open>rat\<close>; it is only evaluated when \<^verbatim>\<open>i > 1\<close>.
\<close>

record 't example =
  src :: "'t list"
  trg :: "'t list"

definition dyn_batch_with_padding :: "'t example \<Rightarrow> int \<Rightarrow> rat \<Rightarrow> rat" where
  "dyn_batch_with_padding new i sofar =
     (let prev_max_len = (if i > 1 then sofar / of_int (i - 1) else 0);
          t = max (max (of_nat (length (src new))) (of_nat (length (trg new)))) prev_max_len * of_int i
      in t)"

definition dyn_batch_without_padding :: "'t example \<Rightarrow> int \<Rightarrow> 'c \<Rightarrow> ('c::linordered_idom)" where
  "dyn_batch_without_padding new i sofar =
     sofar + of_nat (max (length (src new)) (length (trg new)))"

subsection \<open>lazy_reader\<close>

text \<open>
  A line is a list of characters of any type \<open>'c\<close>; Python's table of whitespace
  characters is the parameter \<open>isspace\<close>. \<^verbatim>\<open>line.strip()\<close> removes the whitespace at
  both ends, and \<^verbatim>\<open>line.split()\<close> cuts a line at every run of whitespace and keeps
  the words that are not empty.
\<close>

definition py_strip :: "('c \<Rightarrow> bool) \<Rightarrow> 'c list \<Rightarrow> 'c list" where
  "py_strip isspace line = rev (dropWhile isspace (rev (dropWhile isspace line)))"

fun split_from :: "('c \<Rightarrow> bool) \<Rightarrow> 'c list \<Rightarrow> 'c list \<Rightarrow> 'c list list" where
  "split_from isspace word [] = (if word = [] then [] else [word])"
| "split_from isspace word (c # cs) =
     (if isspace c then
        (if word = [] then split_from isspace [] cs else word # split_from isspace [] cs)
      else split_from isspace (word @ [c]) cs)"

definition py_split :: "('c \<Rightarrow> bool) \<Rightarrow> 'c list \<Rightarrow> 'c list list" where
  "py_split isspace line = split_from isspace [] line"

text \<open>
  The inner loop of lines 47 to 51: the flag is raised at the first line with more than
  \<^verbatim>\<open>max_len\<close> words.
\<close>

fun flag_too_long :: "('c \<Rightarrow> bool) \<Rightarrow> int \<Rightarrow> 'c list list \<Rightarrow> bool" where
  "flag_too_long isspace max_len [] = False"
| "flag_too_long isspace max_len (line # rest) =
     (if int (length (py_split isspace line)) > max_len then True
      else flag_too_long isspace max_len rest)"

text \<open>The variables that live across the iterations of \<^verbatim>\<open>lazy_reader\<close>.\<close>

record 'c reader_state =
  examples :: "'c list list list"
  out_step :: int

text \<open>
  Lines 58 to 63: when \<^verbatim>\<open>out_step\<close> is a positive multiple of \<^verbatim>\<open>buffer\<close> the cached
  examples are yielded and the cache is emptied. \<^verbatim>\<open>out_step % buffer\<close> is evaluated
  first and raises for a zero \<^verbatim>\<open>buffer\<close>. The result is the list of the examples
  yielded and the new state.
\<close>

definition flush_cache ::
  "int \<Rightarrow> 'c reader_state \<Rightarrow> error + ('c list list list \<times> 'c reader_state)" where
  "flush_cache buffer st =
     (if buffer = 0 then Inl ZeroDivisionError
      else if out_step st mod buffer = 0 \<and> out_step st > 0 then
        Inr (examples st, st\<lparr>examples := []\<rparr>)
      else Inr ([], st))"

text \<open>
  One iteration of \<^verbatim>\<open>for steps, lines in enumerate(zip(*files))\<close> (lines 44 to 63), for
  one tuple of aligned lines. The \<^verbatim>\<open>continue\<close> of line 53 skips the rest of the
  iteration, the cache check included.
\<close>

definition reader_step ::
  "('c \<Rightarrow> bool) \<Rightarrow> int option \<Rightarrow> int \<Rightarrow> 'c list list \<Rightarrow> 'c reader_state
     \<Rightarrow> error + ('c list list list \<times> 'c reader_state)" where
  "reader_step isspace max_len buffer lines st =
     (let lines = map (py_strip isspace) lines in
      if \<not> list_ex (\<lambda>line. line = []) lines then
        (if (case max_len of None \<Rightarrow> False | Some m \<Rightarrow> flag_too_long isspace m lines) then
           Inr ([], st)
         else
           flush_cache buffer (st\<lparr>examples := examples st @ [lines], out_step := out_step st + 1\<rparr>))
      else flush_cache buffer st)"

text \<open>
  One pass over the opened files: the tuples of aligned lines are those of
  \<^verbatim>\<open>zip(*files)\<close>. An exception ends the generator.
\<close>

fun read_files ::
  "('c \<Rightarrow> bool) \<Rightarrow> int option \<Rightarrow> int \<Rightarrow> 'c list list list \<Rightarrow> 'c reader_state
     \<Rightarrow> error + ('c list list list \<times> 'c reader_state)" where
  "read_files isspace max_len buffer [] st = Inr ([], st)"
| "read_files isspace max_len buffer (lines # rest) st =
     (case reader_step isspace max_len buffer lines st of
        Inl e \<Rightarrow> Inl e
      | Inr (ys, st') \<Rightarrow>
          (case read_files isspace max_len buffer rest st' of
             Inl e \<Rightarrow> Inl e
           | Inr (zs, st'') \<Rightarrow> Inr (ys @ zs, st'')))"

text \<open>
  \<^verbatim>\<open>lazy_reader\<close> never returns: \<^verbatim>\<open>while True\<close> opens the files again and again. The
  model is given the number of passes to run, and the state to start from (the source
  starts from \<^verbatim>\<open>examples = []\<close> and \<^verbatim>\<open>out_step = 0\<close>); it returns what is yielded
  during these passes.
\<close>

fun lazy_reader ::
  "nat \<Rightarrow> ('c \<Rightarrow> bool) \<Rightarrow> int option \<Rightarrow> int \<Rightarrow> 'c list list list \<Rightarrow> 'c reader_state
     \<Rightarrow> error + ('c list list list \<times> 'c reader_state)" where
  "lazy_reader 0 isspace max_len buffer files st = Inr ([], st)"
| "lazy_reader (Suc passes) isspace max_len buffer files st =
     (case read_files isspace max_len buffer files st of
        Inl e \<Rightarrow> Inl e
      | Inr (ys, st') \<Rightarrow>
          (case lazy_reader passes isspace max_len buffer files st' of
             Inl e \<Rightarrow> Inl e
           | Inr (zs, st'') \<Rightarrow> Inr (ys @ zs, st'')))"

text \<open>
  The filter as the specification words it: a tuple gives an example when no field is
  empty after stripping and, with a \<^verbatim>\<open>max_len\<close>, no field has more than \<^verbatim>\<open>max_len\<close>
  words.
\<close>

definition spec_keeps :: "('c \<Rightarrow> bool) \<Rightarrow> int option \<Rightarrow> 'c list list \<Rightarrow> bool" where
  "spec_keeps isspace max_len lines =
     (list_all (\<lambda>line. py_strip isspace line \<noteq> []) lines \<and>
      (case max_len of
         None \<Rightarrow> True
       | Some m \<Rightarrow> list_all (\<lambda>line. int (length (py_split isspace (py_strip isspace line))) \<le> m) lines))"

subsection \<open>Sequence2D and the fields of a batch\<close>

text \<open>
  A token is a Python string or \<^verbatim>\<open>None\<close> (a field built without \<^verbatim>\<open>init_token\<close> has
  \<^verbatim>\<open>None\<close> there). The attributes of a field that \<^verbatim>\<open>Sequence2D.pad\<close> reads.
\<close>

type_synonym token = "string option"

record Sequence2D =
  sequential :: bool
  fix_length :: "int option"
  init_token :: token
  eos_token :: token
  pad_token :: token
  include_lengths :: bool

text \<open>
  \<^verbatim>\<open>max(...)\<close> over a generator: it raises \<^verbatim>\<open>ValueError\<close> when nothing is generated.
\<close>

fun py_max :: "int list \<Rightarrow> error + int" where
  "py_max [] = Inl ValueError"
| "py_max (x # xs) = Inr (fold max xs x)"

text \<open>
  \<^verbatim>\<open>Sequence2D.pad\<close> (lines 224 to 274). An example is a list of words, a word a list of
  characters. Every word gets a space appended (in place, so the example itself keeps
  it), the sentence gets \<^verbatim>\<open>[init_token]\<close> and \<^verbatim>\<open>[eos_token]\<close> around it and is filled with
  \<^verbatim>\<open>[pad_token]\<close> words up to the longest sentence plus 2; then every word is filled
  with \<^verbatim>\<open>pad_token\<close> before its last character up to the longest word. The result is the
  padded batch, with the lengths when \<^verbatim>\<open>include_lengths\<close> is set. Line 238 takes the
  \<^verbatim>\<open>max\<close> of the sentence lengths, which raises on an empty batch. Examples are values
  here: the model is that of a run in which no example object reaches \<^verbatim>\<open>pad\<close> twice, as
  in the batches that \<^verbatim>\<open>fetch_batch\<close> forms, where every example is in one batch.
\<close>

definition Sequence2D_pad ::
  "Sequence2D \<Rightarrow> token list list list \<Rightarrow> error + (token list list list \<times> int list option)" where
  "Sequence2D_pad self mbatch =
     (if \<not> sequential self then Inr (mbatch, None)
      else if fix_length self \<noteq> None then Inl NotImplementedError
      else
        case py_max (map (\<lambda>x. int (length x)) mbatch) of
          Inl e \<Rightarrow> Inl e
        | Inr m \<Rightarrow>
            let max_len = m + 2;
                xs = map (\<lambda>x. [[init_token self]] @ map (\<lambda>word. word @ [Some '' '']) x
                                @ [[eos_token self]]) mbatch;
                padded = map (\<lambda>x. x @ replicate (nat (max 0 (max_len - int (length x))))
                                           [pad_token self]) xs;
                lengths = map (\<lambda>x. int (length (x @ replicate (nat (max 0 (max_len - int (length x))))
                                                        [pad_token self]))
                                      - max 0 (max_len - int (length x))) xs
            in case py_max (concat (map (map (\<lambda>word. int (length word))) padded)) of
                 Inl e \<Rightarrow> Inl e
               | Inr max_word \<Rightarrow>
                   let padded_word_all =
                         map (map (\<lambda>word. butlast word
                                      @ replicate (nat (max 0 (max_word - int (length word))))
                                          (pad_token self)
                                      @ drop (length word - 1) word)) padded
                   in Inr (padded_word_all, if include_lengths self then Some lengths else None))"

text \<open>
  \<^verbatim>\<open>field.process(batch, device=device)\<close> is inherited from torchtext: it returns
  \<^verbatim>\<open>self.numericalize(self.pad(batch), device=device)\<close>. \<^verbatim>\<open>numericalize\<close> looks every
  character up in the vocabulary and builds a torch tensor; it is a parameter here.
\<close>

definition Sequence2D_process ::
  "(token list list list \<times> int list option \<Rightarrow> error + 't) \<Rightarrow> Sequence2D \<Rightarrow> token list list list
     \<Rightarrow> error + 't" where
  "Sequence2D_process numericalize self batch =
     (case Sequence2D_pad self batch of
        Inl e \<Rightarrow> Inl e
      | Inr padded \<Rightarrow> numericalize padded)"

text \<open>
  The loop over \<^verbatim>\<open>dataset.fields.items()\<close> at the end of \<^verbatim>\<open>DistributedBatch.__init__\<close>
  (lines 370 to 373). A name stands for the attribute it reads from an example
  (\<^verbatim>\<open>getattr(x, name)\<close>) and a field for its \<^verbatim>\<open>process\<close> method, \<open>None\<close> for a field that
  is \<^verbatim>\<open>None\<close>. The result lists the attributes set on the batch, in the order of the
  fields; an exception of \<^verbatim>\<open>process\<close> leaves the constructor.
\<close>

fun process_fields ::
  "(('a \<Rightarrow> 'd) \<times> ('d list \<Rightarrow> error + 't) option) list \<Rightarrow> 'a list \<Rightarrow> error + 't list" where
  "process_fields [] data = Inr []"
| "process_fields ((name, field) # rest) data =
     (case field of
        None \<Rightarrow> process_fields rest data
      | Some process \<Rightarrow>
          (case process (map name data) of
             Inl e \<Rightarrow> Inl e
           | Inr tensor \<Rightarrow>
               (case process_fields rest data of
                  Inl e \<Rightarrow> Inl e
                | Inr tensors \<Rightarrow> Inr (tensor # tensors))))"

text \<open>
  The object that \<^verbatim>\<open>DistributedBatch.__init__\<close> builds from a list of examples (lines 346
  to 373, the branch \<^verbatim>\<open>data is not None\<close>, which is the one the iterator takes): its
  \<^verbatim>\<open>batch_size\<close> and the attribute of every field.
\<close>

record 't Batch =
  batch_size_of :: int
  attributes :: "'t list"

definition DistributedBatch_init ::
  "(('a \<Rightarrow> 'd) \<times> ('d list \<Rightarrow> error + 't) option) list \<Rightarrow> 'a list \<Rightarrow> int \<Rightarrow> int
     \<Rightarrow> error + 't Batch" where
  "DistributedBatch_init field_list data world_size local_rank =
     (case DistributedBatch data world_size local_rank of
        Inl e \<Rightarrow> Inl e
      | Inr data \<Rightarrow>
          (case process_fields field_list data of
             Inl e \<Rightarrow> Inl e
           | Inr attrs \<Rightarrow> Inr \<lparr>batch_size_of = int (length data), attributes = attrs\<rparr>))"

subsection \<open>LazyBucketIterator\<close>

text \<open>
  \<^verbatim>\<open>minibatch.sort(key=self.sort_key, reverse=True)\<close>: Python's sort is stable, also
  with \<^verbatim>\<open>reverse=True\<close>, where examples with equal keys keep their order.
\<close>

definition py_sort_reverse :: "('a \<Rightarrow> 'k::linorder) \<Rightarrow> 'a list \<Rightarrow> 'a list" where
  "py_sort_reverse key xs = rev (sort_key key (rev xs))"

text \<open>
  The attributes of the iterator that \<^verbatim>\<open>__iter__\<close> reads and writes. A field selector is a
  constant, so \<^verbatim>\<open>sort_key\<close>, \<^verbatim>\<open>world_size\<close> and \<^verbatim>\<open>rank\<close> carry a suffix that keeps them
  apart from the library's \<open>sort_key\<close> and from the variables of the other functions,
  \<^verbatim>\<open>_iterations_this_epoch\<close> loses its underscore, and \<open>dataset_fields\<close> is
  \<^verbatim>\<open>self.dataset.fields\<close>.
\<close>

record ('a, 'k, 'd, 't) LazyBucketIterator =
  iterations :: int
  iterations_this_epoch :: int
  sort_within_batch :: bool
  sort_key_fn :: "'a \<Rightarrow> 'k"
  world_size_of :: int
  rank_of :: int
  dataset_fields :: "(('a \<Rightarrow> 'd) \<times> ('d list \<Rightarrow> error + 't) option) list"

text \<open>
  The loop \<^verbatim>\<open>for idx, minibatch in enumerate(self.batches)\<close> of one epoch (lines 405 to
  425), from index \<open>idx\<close>, over the batches that \<^verbatim>\<open>self.batches\<close> still produces.
  \<^verbatim>\<open>init_epoch\<close>, which runs before the loop, belongs to torchtext: the loop is
  modelled from the state in which it leaves the iterator, with the counter
  \<^verbatim>\<open>_iterations_this_epoch\<close> as loaded. The result is the list of the per-rank batches
  yielded, the exception that ended the generator if there was one, and the final state.
\<close>

fun iter_epoch ::
  "int \<Rightarrow> 'a list list \<Rightarrow> ('a, 'k::linorder, 'd, 't) LazyBucketIterator
     \<Rightarrow> 't Batch list \<times> error option \<times> ('a, 'k, 'd, 't) LazyBucketIterator" where
  "iter_epoch idx [] self = ([], None, self)"
| "iter_epoch idx (mbatch # rest) self =
     (if iterations_this_epoch self > idx then iter_epoch (idx + 1) rest self
      else
        let self = self\<lparr>iterations := iterations self + 1,
                         iterations_this_epoch := iterations_this_epoch self + 1\<rparr>;
            mbatch = (if sort_within_batch self
                      then py_sort_reverse (sort_key_fn self) mbatch else mbatch)
        in case DistributedBatch_init (dataset_fields self) mbatch (world_size_of self) (rank_of self) of
             Inl e \<Rightarrow> ([], Some e, self)
           | Inr batch \<Rightarrow> apfst ((#) batch) (iter_epoch (idx + 1) rest self))"

text \<open>
  What one iteration of that loop hands to the caller for a minibatch it does not skip
  (lines 419 to 425): the minibatch, sorted in decreasing order of the key when
  \<^verbatim>\<open>sort_within_batch\<close> is set, wrapped as the batch of the iterator's rank. The
  resumed run is compared with it below.
\<close>

definition wrap_minibatch ::
  "('a, 'k::linorder, 'd, 't) LazyBucketIterator \<Rightarrow> 'a list \<Rightarrow> error + 't Batch" where
  "wrap_minibatch self mbatch =
     DistributedBatch_init (dataset_fields self)
       (if sort_within_batch self then py_sort_reverse (sort_key_fn self) mbatch else mbatch)
       (world_size_of self) (rank_of self)"

section \<open>Sharding a batch over the ranks\<close>

lemma remainder_is_mod: "(B::int) - (B div W) * W = B mod W"
  by (simp add: minus_div_mult_eq_mod)

lemma quotient_nonneg:
  assumes "1 \<le> (W::int)" "0 \<le> B"
  shows "0 \<le> B div W"
  using assms by (auto simp: div_int_pos_iff)

lemma shard_positions_formula:
  assumes "1 \<le> W" "0 \<le> R" "R < W"
  shows "shard_positions B W R =
     Inr (R * (B div W) + min R (B - (B div W) * W),
          R * (B div W) + min R (B - (B div W) * W) + (B div W)
            + (if R < B - (B div W) * W then 1 else 0))"
  using assms by (auto simp: shard_positions_def Let_def min_def algebra_simps)

lemma spec_shard_start_next:
  "spec_shard_start B W R + (B div W) + (if R < B - (B div W) * W then 1 else 0)
     = spec_shard_start B W (R + 1)"
  by (auto simp: spec_shard_start_def min_def algebra_simps)

lemma shard_positions_starts:
  assumes "1 \<le> W" "0 \<le> R" "R < W"
  shows "shard_positions B W R = Inr (spec_shard_start B W R, spec_shard_start B W (R + 1))"
  using shard_positions_formula[OF assms, of B] spec_shard_start_next[of B W R]
  by (simp add: spec_shard_start_def)

lemma spec_shard_start_bounds:
  assumes "1 \<le> (W::int)" "0 \<le> R" "R < W" "0 \<le> B"
  shows "0 \<le> spec_shard_start B W R" and "spec_shard_start B W (R + 1) \<le> B"
proof -
  have b0: "0 \<le> B div W" by (rule quotient_nonneg[OF assms(1,4)])
  have r0: "0 \<le> B mod W" using assms by simp
  show "0 \<le> spec_shard_start B W R"
    using b0 r0 assms by (simp add: spec_shard_start_def remainder_is_mod)
  have m: "(R + 1) * (B div W) \<le> W * (B div W)"
    using assms b0 by (intro mult_right_mono) auto
  have e: "W * (B div W) + B mod W = B" by simp
  have "spec_shard_start B W (R + 1) \<le> (R + 1) * (B div W) + B mod W"
    by (simp add: spec_shard_start_def remainder_is_mod)
  also have "\<dots> \<le> B" using m e by linarith
  finally show "spec_shard_start B W (R + 1) \<le> B" .
qed

lemma spec_shard_start_mono:
  assumes "1 \<le> (W::int)" "0 \<le> B"
  shows "spec_shard_start B W R \<le> spec_shard_start B W (R + 1)"
  using spec_shard_start_next[of B W R] quotient_nonneg[OF assms]
  by (auto split: if_splits)

lemma py_slice_inside:
  assumes "0 \<le> s" "s \<le> e" "e \<le> int (length xs)"
  shows "py_slice xs s e = take (nat e - nat s) (drop (nat s) xs)"
    and "int (length (py_slice xs s e)) = e - s"
  using assms by (auto simp: py_slice_def Let_def min_def max_def nat_diff_distrib)

lemma DistributedBatch_slice:
  assumes "1 \<le> W" "0 \<le> R" "R < W"
  shows "DistributedBatch data W R =
           Inr (py_slice data (spec_shard_start (int (length data)) W R)
                  (spec_shard_start (int (length data)) W (R + 1)))"
  using shard_positions_starts[OF assms, of "int (length data)"]
  by (simp add: DistributedBatch_def)

lemma shard_length:
  assumes "1 \<le> W" "0 \<le> R" "R < W"
  shows "int (length (py_slice data (spec_shard_start (int (length data)) W R)
                        (spec_shard_start (int (length data)) W (R + 1))))
         = int (length data) div W
             + (if R < int (length data) - (int (length data) div W) * W then 1 else 0)"
proof -
  let ?B = "int (length data)"
  have b: "0 \<le> spec_shard_start ?B W R" "spec_shard_start ?B W (R + 1) \<le> ?B"
    using spec_shard_start_bounds[OF assms, of ?B] by simp_all
  have m: "spec_shard_start ?B W R \<le> spec_shard_start ?B W (R + 1)"
    using spec_shard_start_mono[OF assms(1), of ?B R] by simp
  show ?thesis
    using py_slice_inside(2)[OF b(1) m b(2)] spec_shard_start_next[of ?B W R]
    by (auto split: if_splits)
qed

lemma concat_slices:
  assumes "\<And>i. i < n \<Longrightarrow> f i \<le> f (Suc i)" and "f 0 = (0::nat)"
  shows "concat (map (\<lambda>i. take (f (Suc i) - f i) (drop (f i) xs)) [0..<n]) = take (f n) xs"
  using assms(1)
proof (induction n)
  case 0
  then show ?case by (simp add: assms(2))
next
  case (Suc n)
  have "take (f (Suc n)) xs = take (f n + (f (Suc n) - f n)) xs"
    using Suc.prems[of n] by simp
  also have "\<dots> = take (f n) xs @ take (f (Suc n) - f n) (drop (f n) xs)"
    by (rule take_add)
  finally show ?case using Suc by simp
qed

text \<open>
  Claim C1. When the batch has at least \<open>world_size\<close> examples, the slice that
  \<^verbatim>\<open>DistributedBatch\<close> keeps for a rank \<open>R\<close> with \<open>0 \<le> R < world_size\<close> is computed
  without an exception and holds at least one example.
\<close>

theorem shard_nonempty:
  assumes "W \<le> int (length data)" "0 \<le> R" "R < W"
  shows "\<exists>shard. DistributedBatch data W R = Inr shard \<and> 1 \<le> length shard"
proof -
  let ?B = "int (length data)"
  have W1: "1 \<le> W" using assms by simp
  have q1: "1 \<le> ?B div W"
  proof -
    have "W div W \<le> ?B div W" using assms(1) W1 by (intro zdiv_mono1) auto
    then show ?thesis using W1 by simp
  qed
  have "1 \<le> int (length (py_slice data (spec_shard_start ?B W R) (spec_shard_start ?B W (R + 1))))"
    using shard_length[OF W1 assms(2,3), of data] q1 by (auto split: if_splits)
  then show ?thesis
    using DistributedBatch_slice[OF W1 assms(2,3), of data] by simp
qed

theorem shard_nonempty_witness:
  "(3::int) \<le> int (length [10, 20, 30, 40 :: nat]) \<and> (0::int) \<le> 2 \<and> (2::int) < 3
   \<and> (\<exists>shard. DistributedBatch [10, 20, 30, 40 :: nat] 3 2 = Inr shard \<and> 1 \<le> length shard)"
  using shard_nonempty[of 3 "[10, 20, 30, 40 :: nat]" 2] by simp

text \<open>
  Claim C2. For a world size \<open>W \<ge> 1\<close> and a rank \<open>0 \<le> R < W\<close>, the positions of
  \<^verbatim>\<open>DistributedBatch\<close> are \<open>start = R * base + min(R, remainder)\<close> and
  \<open>stop = start + base + (1 if R < remainder else 0)\<close>, with \<open>base = floor(B / W)\<close> and
  \<open>remainder = B - base * W\<close>; the shard is that slice of the batch and has
  \<open>base + 1\<close> examples for the ranks below \<open>remainder\<close> and \<open>base\<close> for the others.
  With a world size of 1, rank 0 keeps the whole batch.
\<close>

theorem shard_positions_spec:
  assumes "1 \<le> W" "0 \<le> R" "R < W"
  shows "(let B = int (length data);
              base = B div W;
              remainder = B - base * W;
              start = R * base + min R remainder;
              stop = start + base + (if R < remainder then 1 else 0)
          in shard_positions B W R = Inr (start, stop)
             \<and> DistributedBatch data W R = Inr (py_slice data start stop)
             \<and> int (length (py_slice data start stop)) = base + (if R < remainder then 1 else 0))
         \<and> DistributedBatch data 1 0 = Inr data"
proof -
  let ?B = "int (length data)"
  have 1: "shard_positions ?B W R = Inr (spec_shard_start ?B W R, spec_shard_start ?B W (R + 1))"
    by (rule shard_positions_starts[OF assms])
  have 2: "DistributedBatch data W R =
             Inr (py_slice data (spec_shard_start ?B W R) (spec_shard_start ?B W (R + 1)))"
    by (rule DistributedBatch_slice[OF assms])
  note 3 = shard_length[OF assms, of data]
  have n: "spec_shard_start ?B W (R + 1)
             = spec_shard_start ?B W R + ?B div W + (if R < ?B - (?B div W) * W then 1 else 0)"
    by (rule spec_shard_start_next[symmetric])
  have general: "let B = int (length data);
              base = B div W;
              remainder = B - base * W;
              start = R * base + min R remainder;
              stop = start + base + (if R < remainder then 1 else 0)
          in shard_positions B W R = Inr (start, stop)
             \<and> DistributedBatch data W R = Inr (py_slice data start stop)
             \<and> int (length (py_slice data start stop)) = base + (if R < remainder then 1 else 0)"
    unfolding Let_def using 1 2 3 unfolding n by (simp add: spec_shard_start_def)
  have whole: "DistributedBatch data 1 0 = Inr data"
    by (simp add: DistributedBatch_def shard_positions_def py_slice_def Let_def)
  from general whole show ?thesis by (rule conjI)
qed

theorem shard_positions_spec_witness:
  "((let B = int (length [1, 2, 3, 4, 5, 6, 7 :: nat]);
        base = B div 3;
        remainder = B - base * 3;
        start = 1 * base + min 1 remainder;
        stop = start + base + (if 1 < remainder then 1 else 0)
    in shard_positions B 3 1 = Inr (start, stop)
       \<and> DistributedBatch [1, 2, 3, 4, 5, 6, 7 :: nat] 3 1 = Inr (py_slice [1, 2, 3, 4, 5, 6, 7] start stop)
       \<and> int (length (py_slice [1, 2, 3, 4, 5, 6, 7 :: nat] start stop)) = base + (if 1 < remainder then 1 else 0))
    \<and> DistributedBatch [1, 2, 3, 4, 5, 6, 7 :: nat] 1 0 = Inr [1, 2, 3, 4, 5, 6, 7])
   \<and> map (shard_positions 7 3) [0, 1, 2] = [Inr (0, 3), Inr (3, 5), Inr (5, 7)]
   \<and> map (DistributedBatch [1, 2, 3, 4, 5, 6, 7 :: nat] 3) [0, 1, 2]
       = [Inr [1, 2, 3], Inr [4, 5], Inr [6, 7]]"
proof -
  have t: "(let B = int (length [1, 2, 3, 4, 5, 6, 7 :: nat]);
        base = B div 3;
        remainder = B - base * 3;
        start = 1 * base + min 1 remainder;
        stop = start + base + (if 1 < remainder then 1 else 0)
    in shard_positions B 3 1 = Inr (start, stop)
       \<and> DistributedBatch [1, 2, 3, 4, 5, 6, 7 :: nat] 3 1 = Inr (py_slice [1, 2, 3, 4, 5, 6, 7] start stop)
       \<and> int (length (py_slice [1, 2, 3, 4, 5, 6, 7 :: nat] start stop)) = base + (if 1 < remainder then 1 else 0))
    \<and> DistributedBatch [1, 2, 3, 4, 5, 6, 7 :: nat] 1 0 = Inr [1, 2, 3, 4, 5, 6, 7]"
    by (rule shard_positions_spec) simp_all
  have v1: "map (shard_positions 7 3) [0, 1, 2] = [Inr (0, 3), Inr (3, 5), Inr (5, 7)]"
    by code_simp
  have v2: "map (DistributedBatch [1, 2, 3, 4, 5, 6, 7 :: nat] 3) [0, 1, 2]
       = [Inr [1, 2, 3], Inr [4, 5], Inr [6, 7]]"
    by code_simp
  show ?thesis
    by (rule conjI[OF t conjI[OF v1 v2]])
qed

text \<open>
  Claim C3. For a world size \<open>W \<ge> 1\<close>, the shards of the ranks \<open>0, \<dots>, W - 1\<close> are all
  computed without an exception, their concatenation in rank order is the batch itself,
  and their lengths add up to the length of the batch.
\<close>

theorem shards_reconstruct:
  assumes "1 \<le> W"
  shows "\<exists>shards. map (\<lambda>R. DistributedBatch data W (int R)) [0..<nat W] = map Inr shards
           \<and> concat shards = data \<and> sum_list (map length shards) = length data"
proof -
  let ?B = "int (length data)"
  let ?f = "\<lambda>i. nat (spec_shard_start ?B W (int i))"
  let ?sh = "map (\<lambda>i. take (?f (Suc i) - ?f i) (drop (?f i) data)) [0..<nat W]"
  have r0: "0 \<le> ?B mod W" "?B mod W < W" using assms by simp_all
  have mono: "\<And>i. ?f i \<le> ?f (Suc i)"
  proof -
    fix i
    have "spec_shard_start ?B W (int i) \<le> spec_shard_start ?B W (int i + 1)"
      using spec_shard_start_mono[OF assms, of ?B "int i"] by simp
    then show "?f i \<le> ?f (Suc i)" by (simp add: add.commute)
  qed
  have f0: "?f 0 = 0" using r0 by (simp add: spec_shard_start_def remainder_is_mod)
  have fW: "?f (nat W) = length data"
  proof -
    have "spec_shard_start ?B W W = W * (?B div W) + ?B mod W"
      using r0 by (simp add: spec_shard_start_def remainder_is_mod min_def)
    also have "\<dots> = ?B" by simp
    finally show ?thesis using assms by simp
  qed
  have 1: "map (\<lambda>R. DistributedBatch data W (int R)) [0..<nat W] = map Inr ?sh"
  proof -
    have "\<And>i. i < nat W \<Longrightarrow>
            DistributedBatch data W (int i) = Inr (take (?f (Suc i) - ?f i) (drop (?f i) data))"
    proof -
      fix i assume "i < nat W"
      then have i: "0 \<le> int i" "int i < W" by auto
      have b: "0 \<le> spec_shard_start ?B W (int i)" "spec_shard_start ?B W (int i + 1) \<le> ?B"
        using spec_shard_start_bounds[OF assms i, of ?B] by simp_all
      have m: "spec_shard_start ?B W (int i) \<le> spec_shard_start ?B W (int i + 1)"
        using spec_shard_start_mono[OF assms, of ?B "int i"] by simp
      show "DistributedBatch data W (int i) = Inr (take (?f (Suc i) - ?f i) (drop (?f i) data))"
        using DistributedBatch_slice[OF assms i, of data] py_slice_inside(1)[OF b(1) m b(2)]
        by (simp add: add.commute)
    qed
    then show ?thesis by simp
  qed
  have 2: "concat ?sh = data"
    using concat_slices[of "nat W" ?f data, OF mono f0] fW by simp
  have 3: "sum_list (map length ?sh) = length data"
    using arg_cong[OF 2, of length] by (simp only: length_concat)
  from 1 2 3 show ?thesis by blast
qed

theorem shards_reconstruct_witness:
  "(1::int) \<le> 3
   \<and> (\<exists>shards. map (\<lambda>R. DistributedBatch [1, 2, 3, 4, 5, 6, 7 :: nat] 3 (int R)) [0..<nat 3]
                  = map Inr shards
         \<and> concat shards = [1, 2, 3, 4, 5, 6, 7] \<and> sum_list (map length shards) = length [1, 2, 3, 4, 5, 6, 7 :: nat])"
  using shards_reconstruct[of 3 "[1, 2, 3, 4, 5, 6, 7 :: nat]"] by simp

section \<open>Assembling batches\<close>

subsection \<open>The branches of the loop\<close>

lemma fetch_loop_reserved:
  assumes "reserve \<and> it < world_size"
  shows "fetch_loop fn batch_size world_size reserve it (ex # rest) st =
         fetch_loop fn batch_size world_size reserve (it + 1) rest
           (st\<lparr>reserved_minibatch := reserved_minibatch st @ [ex]\<rparr>)"
  using assms by (simp only: fetch_loop.simps if_True simp_thms)

lemma fetch_loop_whole:
  assumes "\<not> (reserve \<and> it < world_size)"
    and "fn ex (int (length (minibatch st @ [ex]))) (size_so_far st) = batch_size * of_int world_size
         \<and> int (length (minibatch st @ [ex])) > world_size"
  shows "fetch_loop fn batch_size world_size reserve it (ex # rest) st =
         apfst ((#) (minibatch st @ [ex]))
           (fetch_loop fn batch_size world_size reserve (it + 1) rest
              (st\<lparr>minibatch := [], size_so_far := 0\<rparr>))"
  using assms by (simp only: fetch_loop.simps Let_def if_False if_True simp_thms)

lemma fetch_loop_over:
  assumes "\<not> (reserve \<and> it < world_size)"
    and "\<not> (fn ex (int (length (minibatch st @ [ex]))) (size_so_far st) = batch_size * of_int world_size
         \<and> int (length (minibatch st @ [ex])) > world_size)"
    and "fn ex (int (length (minibatch st @ [ex]))) (size_so_far st) > batch_size * of_int world_size
         \<and> int (length (minibatch st @ [ex])) > world_size + 1"
  shows "fetch_loop fn batch_size world_size reserve it (ex # rest) st =
         apfst ((#) (butlast (minibatch st @ [ex])))
           (fetch_loop fn batch_size world_size reserve (it + 1) rest
              (st\<lparr>minibatch := drop (length (minibatch st @ [ex]) - 1) (minibatch st @ [ex]),
                   size_so_far := fn ex 1 0\<rparr>))"
  using assms by (simp only: fetch_loop.simps Let_def if_False if_True simp_thms)

lemma fetch_loop_keep:
  assumes "\<not> (reserve \<and> it < world_size)"
    and "\<not> (fn ex (int (length (minibatch st @ [ex]))) (size_so_far st) = batch_size * of_int world_size
         \<and> int (length (minibatch st @ [ex])) > world_size)"
    and "\<not> (fn ex (int (length (minibatch st @ [ex]))) (size_so_far st) > batch_size * of_int world_size
         \<and> int (length (minibatch st @ [ex])) > world_size + 1)"
  shows "fetch_loop fn batch_size world_size reserve it (ex # rest) st =
         fetch_loop fn batch_size world_size reserve (it + 1) rest
           (st\<lparr>minibatch := minibatch st @ [ex],
                size_so_far := fn ex (int (length (minibatch st @ [ex]))) (size_so_far st)\<rparr>)"
  using assms by (simp only: fetch_loop.simps Let_def if_False if_True simp_thms)

lemma fetch_batch_butlast:
  "butlast (fetch_batch data batch_size fnopt world_size reserve) =
     fst (fetch_loop (case fnopt of None \<Rightarrow> count_batch_size_fn | Some f \<Rightarrow> f)
            batch_size world_size reserve 0 data
            \<lparr>minibatch = [], size_so_far = 0, reserved_minibatch = []\<rparr>)"
  by (simp add: fetch_batch_def Let_def)

lemma fetch_batch_last:
  "last (fetch_batch data batch_size fnopt world_size reserve) =
     (let st = snd (fetch_loop (case fnopt of None \<Rightarrow> count_batch_size_fn | Some f \<Rightarrow> f)
                      batch_size world_size reserve 0 data
                      \<lparr>minibatch = [], size_so_far = 0, reserved_minibatch = []\<rparr>)
      in if reserve then minibatch st @ reserved_minibatch st else minibatch st)"
  by (simp add: fetch_batch_def Let_def)

subsection \<open>The cost of a batch\<close>

lemma accumulate_snoc:
  "accumulate fn n c (xs @ [x]) = fn x (n + int (length (xs @ [x]))) (accumulate fn n c xs)"
  by (induction xs arbitrary: n c) (simp_all add: algebra_simps)

lemma batch_cost_snoc:
  "batch_cost fn (xs @ [x]) = fn x (int (length (xs @ [x]))) (batch_cost fn xs)"
  by (simp add: batch_cost_def accumulate_snoc)

lemma batch_cost_single: "batch_cost fn [x] = fn x 1 0"
  by (simp add: batch_cost_def)

lemma batch_cost_Nil: "batch_cost fn [] = 0"
  by (simp add: batch_cost_def)

lemma count_cost_length: "batch_cost count_batch_size_fn xs = of_nat (length xs)"
proof (induction xs rule: rev_induct)
  case Nil
  show ?case by (simp add: batch_cost_Nil)
next
  case (snoc x xs)
  show ?case by (simp only: batch_cost_snoc count_batch_size_fn_def of_int_of_nat_eq)
qed

text \<open>The counting cost never decreases when an example is appended.\<close>

lemma count_cost_monotone:
  "(batch_cost count_batch_size_fn xs :: 'c::linordered_idom)
     \<le> batch_cost count_batch_size_fn (xs @ [x])"
  by (simp add: count_cost_length)

subsection \<open>The batches yielded inside the loop\<close>

text \<open>
  The loop keeps two facts about its state: \<^verbatim>\<open>size_so_far\<close> is the cost accumulated over
  \<^verbatim>\<open>minibatch\<close>, and a \<^verbatim>\<open>minibatch\<close> of more than \<^verbatim>\<open>world_size + 1\<close> examples that was
  not emitted costs at most \<^verbatim>\<open>batch_size * world_size\<close>.
\<close>

lemma fetch_loop_yields:
  assumes "0 \<le> world_size"
    and "size_so_far st = batch_cost fn (minibatch st)"
    and "int (length (minibatch st)) > world_size + 1
           \<Longrightarrow> size_so_far st \<le> batch_size * of_int world_size"
  shows "list_all (\<lambda>b. int (length b) > world_size \<and>
                        (batch_cost fn b \<le> batch_size * of_int world_size
                           \<or> int (length b) = world_size + 1))
           (fst (fetch_loop fn batch_size world_size reserve it data st))"
  using assms(2,3)
proof (induction data arbitrary: it st)
  case Nil
  then show ?case by simp
next
  case (Cons ex rest)
  let ?mb = "minibatch st @ [ex]"
  let ?sz = "fn ex (int (length ?mb)) (size_so_far st)"
  let ?thr = "batch_size * of_int world_size"
  let ?good = "\<lambda>b. int (length b) > world_size \<and>
                  (batch_cost fn b \<le> ?thr \<or> int (length b) = world_size + 1)"
  have sz: "?sz = batch_cost fn ?mb"
    by (simp only: batch_cost_snoc Cons.prems(1))
  consider (reserved) "reserve \<and> it < world_size"
    | (whole) "\<not> (reserve \<and> it < world_size)" "?sz = ?thr \<and> int (length ?mb) > world_size"
    | (over) "\<not> (reserve \<and> it < world_size)" "\<not> (?sz = ?thr \<and> int (length ?mb) > world_size)"
        "?sz > ?thr \<and> int (length ?mb) > world_size + 1"
    | (keep) "\<not> (reserve \<and> it < world_size)" "\<not> (?sz = ?thr \<and> int (length ?mb) > world_size)"
        "\<not> (?sz > ?thr \<and> int (length ?mb) > world_size + 1)"
    by blast
  then show ?case
  proof cases
    case reserved
    have "list_all ?good (fst (fetch_loop fn batch_size world_size reserve (it + 1) rest
             (st\<lparr>reserved_minibatch := reserved_minibatch st @ [ex]\<rparr>)))"
      using Cons.prems by (intro Cons.IH) simp_all
    then show ?thesis
      by (simp only: fetch_loop_reserved[OF reserved])
  next
    case whole
    have r: "list_all ?good (fst (fetch_loop fn batch_size world_size reserve (it + 1) rest
               (st\<lparr>minibatch := [], size_so_far := 0\<rparr>)))"
      using assms(1) by (intro Cons.IH) (simp_all add: batch_cost_Nil)
    have g: "?good ?mb"
      using whole(2) sz by simp
    show ?thesis
      using r g
      by (simp only: fetch_loop_whole[where fn=fn and ex=ex and st=st, OF whole]
            fst_apfst list.pred_inject simp_thms)
  next
    case over
    have r: "list_all ?good (fst (fetch_loop fn batch_size world_size reserve (it + 1) rest
               (st\<lparr>minibatch := drop (length ?mb - 1) ?mb, size_so_far := fn ex 1 0\<rparr>)))"
      using assms(1) by (intro Cons.IH) (simp_all add: batch_cost_single)
    have g: "?good (butlast ?mb)"
      using over(3) Cons.prems by auto
    show ?thesis
      using r g
      by (simp only: fetch_loop_over[where fn=fn and ex=ex and st=st, OF over]
            fst_apfst list.pred_inject simp_thms)
  next
    case keep
    have "list_all ?good (fst (fetch_loop fn batch_size world_size reserve (it + 1) rest
             (st\<lparr>minibatch := ?mb, size_so_far := ?sz\<rparr>)))"
      using keep(3) sz by (intro Cons.IH) auto
    then show ?thesis
      by (simp only: fetch_loop_keep[where fn=fn and ex=ex and st=st, OF keep])
  qed
qed

text \<open>
  Claim C4, as the claim states it, fails. With the counting cost, \<^verbatim>\<open>batch_size = 1\<close> and
  \<^verbatim>\<open>world_size = 2\<close> the bound is \<open>2\<close>; on four examples the guard
  \<^verbatim>\<open>len(minibatch) > world_size + 1\<close> holds the batch back until it has four examples,
  and the batch emitted before the final one, without the deferred fourth example, has
  three examples and cost \<open>3\<close>.
\<close>

theorem non_final_cost_counterexample:
  "butlast (fetch_batch [1, 2, 3, 4 :: nat] (1::int) None 2 False) = [[1, 2, 3]]
   \<and> batch_cost count_batch_size_fn [1, 2, 3 :: nat] = (3::int)
   \<and> \<not> (batch_cost count_batch_size_fn [1, 2, 3 :: nat] \<le> (1::int) * of_int 2)"
  by code_simp

text \<open>
  Claim C4, amended. For a \<^verbatim>\<open>world_size\<close> that is not negative, any cost function and
  either setting of \<^verbatim>\<open>reserve\<close>, every batch that \<^verbatim>\<open>fetch_batch\<close> yields before the
  final one has more than \<^verbatim>\<open>world_size\<close> examples, and its accumulated cost is at most
  \<^verbatim>\<open>batch_size * world_size\<close> unless it has exactly \<^verbatim>\<open>world_size + 1\<close> examples.
\<close>

theorem non_final_batches:
  assumes "0 \<le> world_size"
  shows "list_all (\<lambda>b. int (length b) > world_size \<and>
            (batch_cost (case fnopt of None \<Rightarrow> count_batch_size_fn | Some f \<Rightarrow> f) b
                 \<le> batch_size * of_int world_size
               \<or> int (length b) = world_size + 1))
          (butlast (fetch_batch data batch_size fnopt world_size reserve))"
  unfolding fetch_batch_butlast
  using assms by (intro fetch_loop_yields) (simp_all add: batch_cost_Nil)

theorem non_final_batches_witness:
  "(0::int) \<le> 2
   \<and> list_all (\<lambda>b. int (length b) > 2 \<and>
            (batch_cost (case None of None \<Rightarrow> count_batch_size_fn | Some f \<Rightarrow> f) b
                 \<le> (1::int) * of_int 2
               \<or> int (length b) = 2 + 1))
          (butlast (fetch_batch [1, 2, 3, 4 :: nat] (1::int) None 2 False))"
proof -
  have h: "(0::int) \<le> 2" by simp
  from h non_final_batches[OF h, where fnopt = None and batch_size = "1::int"
      and data = "[1, 2, 3, 4 :: nat]" and reserve = False]
  show ?thesis by (rule conjI)
qed

subsection \<open>Reserve mode\<close>

text \<open>
  Once the index has passed \<^verbatim>\<open>world_size\<close>, or without \<^verbatim>\<open>reserve\<close>, the test of line 95
  never holds again, and neither the index nor the flag matters.
\<close>

lemma fetch_loop_past_reserve:
  assumes "reserve \<longrightarrow> world_size \<le> it" and "reserve' \<longrightarrow> world_size \<le> it'"
  shows "fetch_loop fn batch_size world_size reserve it data st =
         fetch_loop fn batch_size world_size reserve' it' data st"
  using assms
proof (induction data arbitrary: it it' st)
  case Nil
  show ?case by simp
next
  case (Cons ex rest)
  let ?mb = "minibatch st @ [ex]"
  let ?sz = "fn ex (int (length ?mb)) (size_so_far st)"
  let ?thr = "batch_size * of_int world_size"
  have n: "\<not> (reserve \<and> it < world_size)" "\<not> (reserve' \<and> it' < world_size)"
    using Cons.prems by auto
  have next_ok: "reserve \<longrightarrow> world_size \<le> it + 1" "reserve' \<longrightarrow> world_size \<le> it' + 1"
    using Cons.prems by auto
  note IH = Cons.IH[OF next_ok]
  consider (whole) "?sz = ?thr \<and> int (length ?mb) > world_size"
    | (over) "\<not> (?sz = ?thr \<and> int (length ?mb) > world_size)"
        "?sz > ?thr \<and> int (length ?mb) > world_size + 1"
    | (keep) "\<not> (?sz = ?thr \<and> int (length ?mb) > world_size)"
        "\<not> (?sz > ?thr \<and> int (length ?mb) > world_size + 1)"
    by blast
  then show ?case
  proof cases
    case whole
    show ?thesis
      by (simp only: fetch_loop_whole[where fn=fn and ex=ex and st=st, OF n(1) whole]
            fetch_loop_whole[where fn=fn and ex=ex and st=st, OF n(2) whole] IH)
  next
    case over
    show ?thesis
      by (simp only: fetch_loop_over[where fn=fn and ex=ex and st=st, OF n(1) over]
            fetch_loop_over[where fn=fn and ex=ex and st=st, OF n(2) over] IH)
  next
    case keep
    show ?thesis
      by (simp only: fetch_loop_keep[where fn=fn and ex=ex and st=st, OF n(1) keep]
            fetch_loop_keep[where fn=fn and ex=ex and st=st, OF n(2) keep] IH)
  qed
qed

lemma fetch_loop_reserved_field:
  "fetch_loop fn batch_size world_size False it data (st\<lparr>reserved_minibatch := r\<rparr>) =
   apsnd (\<lambda>s. s\<lparr>reserved_minibatch := r\<rparr>) (fetch_loop fn batch_size world_size False it data st)"
proof (induction data arbitrary: it st)
  case Nil
  show ?case by simp
next
  case (Cons ex rest)
  let ?st' = "st\<lparr>reserved_minibatch := r\<rparr>"
  let ?mb = "minibatch st @ [ex]"
  let ?sz = "fn ex (int (length ?mb)) (size_so_far st)"
  let ?thr = "batch_size * of_int world_size"
  have n: "\<not> (False \<and> it < world_size)" by simp
  have eq: "minibatch ?st' = minibatch st" "size_so_far ?st' = size_so_far st" by simp_all
  consider (whole) "?sz = ?thr \<and> int (length ?mb) > world_size"
    | (over) "\<not> (?sz = ?thr \<and> int (length ?mb) > world_size)"
        "?sz > ?thr \<and> int (length ?mb) > world_size + 1"
    | (keep) "\<not> (?sz = ?thr \<and> int (length ?mb) > world_size)"
        "\<not> (?sz > ?thr \<and> int (length ?mb) > world_size + 1)"
    by blast
  then show ?case
  proof cases
    case whole
    have whole': "fn ex (int (length (minibatch ?st' @ [ex]))) (size_so_far ?st') = ?thr
                  \<and> int (length (minibatch ?st' @ [ex])) > world_size"
      using whole by (simp only: eq)
    have seq: "?st'\<lparr>minibatch := [], size_so_far := 0\<rparr>
               = (st\<lparr>minibatch := [], size_so_far := 0\<rparr>)\<lparr>reserved_minibatch := r\<rparr>"
      by simp
    show ?thesis
      unfolding fetch_loop_whole[where fn=fn and ex=ex and st=st, OF n whole]
        fetch_loop_whole[where fn=fn and ex=ex and st="?st'", OF n whole'] eq seq Cons.IH
      by (simp only: apsnd_apfst_commute)
  next
    case over
    have over': "\<not> (fn ex (int (length (minibatch ?st' @ [ex]))) (size_so_far ?st') = ?thr
                  \<and> int (length (minibatch ?st' @ [ex])) > world_size)"
       "fn ex (int (length (minibatch ?st' @ [ex]))) (size_so_far ?st') > ?thr
                  \<and> int (length (minibatch ?st' @ [ex])) > world_size + 1"
      using over by (simp_all only: eq simp_thms)
    have seq: "?st'\<lparr>minibatch := drop (length ?mb - 1) ?mb, size_so_far := fn ex 1 0\<rparr>
          = (st\<lparr>minibatch := drop (length ?mb - 1) ?mb, size_so_far := fn ex 1 0\<rparr>)\<lparr>reserved_minibatch := r\<rparr>"
      by simp
    show ?thesis
      unfolding fetch_loop_over[where fn=fn and ex=ex and st=st, OF n over]
        fetch_loop_over[where fn=fn and ex=ex and st="?st'", OF n over'] eq seq Cons.IH
      by (simp only: apsnd_apfst_commute)
  next
    case keep
    have keep': "\<not> (fn ex (int (length (minibatch ?st' @ [ex]))) (size_so_far ?st') = ?thr
                  \<and> int (length (minibatch ?st' @ [ex])) > world_size)"
       "\<not> (fn ex (int (length (minibatch ?st' @ [ex]))) (size_so_far ?st') > ?thr
                  \<and> int (length (minibatch ?st' @ [ex])) > world_size + 1)"
      using keep by (simp_all only: eq simp_thms)
    have seq: "?st'\<lparr>minibatch := ?mb, size_so_far := ?sz\<rparr>
          = (st\<lparr>minibatch := ?mb, size_so_far := ?sz\<rparr>)\<lparr>reserved_minibatch := r\<rparr>"
      by simp
    show ?thesis
      unfolding fetch_loop_keep[where fn=fn and ex=ex and st=st, OF n keep]
        fetch_loop_keep[where fn=fn and ex=ex and st="?st'", OF n keep'] eq seq Cons.IH
      by (rule refl)
  qed
qed

lemma fetch_loop_reserve_prefix:
  "fetch_loop fn batch_size world_size True it data st =
   fetch_loop fn batch_size world_size True (it + int (length (take (nat (world_size - it)) data)))
     (drop (nat (world_size - it)) data)
     (st\<lparr>reserved_minibatch := reserved_minibatch st @ take (nat (world_size - it)) data\<rparr>)"
proof (induction data arbitrary: it st)
  case Nil
  show ?case by simp
next
  case (Cons ex rest)
  show ?case
  proof (cases "it < world_size")
    case True
    then have r: "True \<and> it < world_size" by simp
    have n: "nat (world_size - it) = Suc (nat (world_size - (it + 1)))"
      using True by simp
    show ?thesis
      unfolding fetch_loop_reserved[OF r] n
      by (subst Cons.IH) (simp add: algebra_simps)
  next
    case False
    then have "nat (world_size - it) = 0" by simp
    then show ?thesis by (simp del: fetch_loop.simps)
  qed
qed

lemma fetch_loop_reserve_split:
  "fetch_loop fn batch_size world_size True 0 data
     \<lparr>minibatch = [], size_so_far = 0, reserved_minibatch = []\<rparr> =
   apsnd (\<lambda>s. s\<lparr>reserved_minibatch := take (nat world_size) data\<rparr>)
     (fetch_loop fn batch_size world_size False 0 (drop (nat world_size) data)
        \<lparr>minibatch = [], size_so_far = 0, reserved_minibatch = []\<rparr>)"
proof -
  let ?st0 = "\<lparr>minibatch = [], size_so_far = 0 :: 'b, reserved_minibatch = [] :: 'a list\<rparr>"
  let ?res = "take (nat world_size) data"
  let ?rest = "drop (nat world_size) data"
  have 1: "fetch_loop fn batch_size world_size True 0 data ?st0 =
           fetch_loop fn batch_size world_size True (int (length ?res)) ?rest
             (?st0\<lparr>reserved_minibatch := ?res\<rparr>)"
    using fetch_loop_reserve_prefix[of fn batch_size world_size 0 data ?st0] by simp
  have 2: "fetch_loop fn batch_size world_size True (int (length ?res)) ?rest
             (?st0\<lparr>reserved_minibatch := ?res\<rparr>) =
           fetch_loop fn batch_size world_size False 0 ?rest (?st0\<lparr>reserved_minibatch := ?res\<rparr>)"
  proof (cases "?rest = []")
    case True
    then show ?thesis by simp
  next
    case False
    then have "nat world_size < length data" by simp
    then have "world_size \<le> int (length ?res)" by simp
    then show ?thesis by (intro fetch_loop_past_reserve) simp_all
  qed
  show ?thesis
    unfolding 1 2 by (rule fetch_loop_reserved_field)
qed

text \<open>
  Claim C5. With \<^verbatim>\<open>reserve=True\<close> on an input of at least \<^verbatim>\<open>world_size\<close> examples, the
  batches are those that \<^verbatim>\<open>fetch_batch\<close> without \<^verbatim>\<open>reserve\<close> builds from the input after
  its first \<^verbatim>\<open>world_size\<close> examples (these take no part in the cost accumulation), with
  these first examples appended to the last batch, which therefore has at least
  \<^verbatim>\<open>world_size\<close> examples.
\<close>

theorem reserve_appended:
  assumes "world_size \<le> int (length data)"
  shows "fetch_batch data batch_size fnopt world_size True =
           butlast (fetch_batch (drop (nat world_size) data) batch_size fnopt world_size False)
           @ [last (fetch_batch (drop (nat world_size) data) batch_size fnopt world_size False)
                @ take (nat world_size) data]
         \<and> world_size \<le> int (length (last (fetch_batch data batch_size fnopt world_size True)))"
proof -
  let ?fn = "case fnopt of None \<Rightarrow> count_batch_size_fn | Some f \<Rightarrow> f"
  have eq: "fetch_batch data batch_size fnopt world_size True =
           butlast (fetch_batch (drop (nat world_size) data) batch_size fnopt world_size False)
           @ [last (fetch_batch (drop (nat world_size) data) batch_size fnopt world_size False)
                @ take (nat world_size) data]"
    unfolding fetch_batch_butlast fetch_batch_last
    by (simp add: fetch_batch_def Let_def fetch_loop_reserve_split)
  have "world_size \<le> int (length (take (nat world_size) data))"
    using assms by simp
  then have "world_size \<le> int (length (last (fetch_batch data batch_size fnopt world_size True)))"
    unfolding eq by simp
  with eq show ?thesis by (rule conjI)
qed

theorem reserve_appended_witness:
  "(2::int) \<le> int (length [1, 2, 3, 4, 5, 6, 7 :: nat])
   \<and> (fetch_batch [1, 2, 3, 4, 5, 6, 7 :: nat] (3::int) None 2 True =
           butlast (fetch_batch (drop (nat 2) [1, 2, 3, 4, 5, 6, 7 :: nat]) (3::int) None 2 False)
           @ [last (fetch_batch (drop (nat 2) [1, 2, 3, 4, 5, 6, 7 :: nat]) (3::int) None 2 False)
                @ take (nat 2) [1, 2, 3, 4, 5, 6, 7 :: nat]]
         \<and> 2 \<le> int (length (last (fetch_batch [1, 2, 3, 4, 5, 6, 7 :: nat] (3::int) None 2 True))))
   \<and> fetch_batch [1, 2, 3, 4, 5, 6, 7 :: nat] (3::int) None 2 True = [[3, 4, 5, 6, 7, 1, 2]]"
proof -
  have h: "(2::int) \<le> int (length [1, 2, 3, 4, 5, 6, 7 :: nat])" by simp
  have v: "fetch_batch [1, 2, 3, 4, 5, 6, 7 :: nat] (3::int) None 2 True = [[3, 4, 5, 6, 7, 1, 2]]"
    by code_simp
  from h reserve_appended[OF h, where batch_size = "3::int" and fnopt = None] v
  show ?thesis by blast
qed

subsection \<open>The final batch\<close>

text \<open>
  With the counting cost and without \<^verbatim>\<open>reserve\<close>, a \<^verbatim>\<open>minibatch\<close> that the remaining
  examples fill up to exactly \<^verbatim>\<open>batch_size * world_size\<close> is emitted whole on the last
  example, and the loop ends on an empty \<^verbatim>\<open>minibatch\<close>.
\<close>

lemma count_loop_fills:
  assumes "int (length (minibatch st)) + int (length data) = batch_size * world_size"
    and "world_size < batch_size * world_size"
    and "data \<noteq> []"
  shows "fetch_loop count_batch_size_fn batch_size world_size False it data st =
           ([minibatch st @ data], st\<lparr>minibatch := [], size_so_far := 0\<rparr>)"
  using assms(1,3)
proof (induction data arbitrary: it st)
  case Nil
  then show ?case by simp
next
  case (Cons ex rest)
  let ?mb = "minibatch st @ [ex]"
  let ?sz = "count_batch_size_fn ex (int (length ?mb)) (size_so_far st) :: int"
  let ?thr = "batch_size * of_int world_size"
  have n: "\<not> (False \<and> it < world_size)" by simp
  have sz: "?sz = int (length ?mb)" by (simp add: count_batch_size_fn_def)
  show ?case
  proof (cases "rest = []")
    case True
    then have full: "int (length ?mb) = batch_size * world_size"
      using Cons.prems(1) by simp
    have whole: "?sz = ?thr \<and> int (length ?mb) > world_size"
      using full assms(2) sz by simp
    show ?thesis
      unfolding fetch_loop_whole[where fn=count_batch_size_fn and ex=ex and st=st, OF n whole]
      using True by simp
  next
    case False
    then have short: "int (length ?mb) < batch_size * world_size"
      using Cons.prems(1) by (cases rest) simp_all
    have keep: "\<not> (?sz = ?thr \<and> int (length ?mb) > world_size)"
      "\<not> (?sz > ?thr \<and> int (length ?mb) > world_size + 1)"
      using short sz by simp_all
    have "int (length (minibatch (st\<lparr>minibatch := ?mb, size_so_far := ?sz\<rparr>))) + int (length rest)
          = batch_size * world_size"
      using Cons.prems(1) by simp
    from Cons.IH[OF this False]
    show ?thesis
      unfolding fetch_loop_keep[where fn=count_batch_size_fn and ex=ex and st=st, OF n keep]
      by simp
  qed
qed

text \<open>
  Claim C10. Without \<^verbatim>\<open>reserve\<close> and with the counting cost, an input of exactly
  \<^verbatim>\<open>batch_size * world_size\<close> examples, where \<^verbatim>\<open>batch_size * world_size > world_size\<close>
  and \<^verbatim>\<open>world_size \<ge> 1\<close>, is yielded as one full batch followed by the empty list of
  the unconditional \<^verbatim>\<open>yield\<close> after the loop; \<^verbatim>\<open>DistributedBatch\<close> then gives every
  rank an empty shard of that last batch.
\<close>

theorem empty_final_batch:
  assumes "1 \<le> world_size"
    and "world_size < batch_size * world_size"
    and "int (length data) = batch_size * world_size"
  shows "fetch_batch data batch_size None world_size False = [data, []]
         \<and> DistributedBatch (last (fetch_batch data batch_size None world_size False)) world_size R
             = Inr []"
proof -
  have ne: "data \<noteq> []" using assms by auto
  have 1: "fetch_batch data batch_size None world_size False = [data, []]"
    using count_loop_fills[where st = "\<lparr>minibatch = [], size_so_far = 0, reserved_minibatch = []\<rparr>"
        and data = data and batch_size = batch_size and world_size = world_size and it = 0] assms ne
    by (simp add: fetch_batch_def Let_def)
  have 2: "DistributedBatch ([] :: 'a list) world_size R = Inr []"
    using assms(1) by (simp add: DistributedBatch_def shard_positions_def py_slice_def Let_def)
  show ?thesis unfolding 1 using 2 by simp
qed

theorem empty_final_batch_witness:
  "(1::int) \<le> 2 \<and> (2::int) < 3 * 2 \<and> int (length [1, 2, 3, 4, 5, 6 :: nat]) = 3 * 2
   \<and> fetch_batch [1, 2, 3, 4, 5, 6 :: nat] (3::int) None 2 False = [[1, 2, 3, 4, 5, 6], []]
   \<and> DistributedBatch (last (fetch_batch [1, 2, 3, 4, 5, 6 :: nat] (3::int) None 2 False)) 2 0 = Inr []
   \<and> DistributedBatch (last (fetch_batch [1, 2, 3, 4, 5, 6 :: nat] (3::int) None 2 False)) 2 1 = Inr []"
proof -
  have h: "(1::int) \<le> 2" "(2::int) < 3 * 2" "int (length [1, 2, 3, 4, 5, 6 :: nat]) = 3 * 2"
    by simp_all
  from h empty_final_batch[OF h, of 0] empty_final_batch[OF h, of 1]
  show ?thesis by blast
qed

text \<open>
  Claim C8. Seven examples, the counting cost, \<^verbatim>\<open>batch_size = 3\<close> and \<^verbatim>\<open>world_size = 2\<close>:
  without \<^verbatim>\<open>reserve\<close> the batches have 6 and 1 examples; with \<^verbatim>\<open>reserve\<close> the two
  first examples are set aside, the five others never reach cost 6, and the single, final
  batch has all seven examples, hence at least 2. The batch of 6 examples is cut at the
  positions \<open>[0, 3)\<close> for rank 0 and \<open>[3, 6)\<close> for rank 1, three examples each.
\<close>

theorem seven_examples:
  "fetch_batch [a, b, c, d, e, f, g] (3::int) None 2 False = [[a, b, c, d, e, f], [g]]
   \<and> fetch_batch [a, b, c, d, e, f, g] (3::int) None 2 True = [[c, d, e, f, g, a, b]]
   \<and> 2 \<le> length (last (fetch_batch [a, b, c, d, e, f, g] (3::int) None 2 True))
   \<and> shard_positions 6 2 0 = Inr (0, 3)
   \<and> shard_positions 6 2 1 = Inr (3, 6)
   \<and> DistributedBatch [a, b, c, d, e, f] 2 0 = Inr [a, b, c]
   \<and> DistributedBatch [a, b, c, d, e, f] 2 1 = Inr [d, e, f]"
proof -
  have 1: "fetch_batch [a, b, c, d, e, f, g] (3::int) None 2 False = [[a, b, c, d, e, f], [g]]"
    by (simp add: fetch_batch_def count_batch_size_fn_def Let_def)
  have 2: "fetch_batch [a, b, c, d, e, f, g] (3::int) None 2 True = [[c, d, e, f, g, a, b]]"
    by (simp add: fetch_batch_def count_batch_size_fn_def Let_def)
  have 3: "shard_positions 6 2 0 = Inr (0, 3)" "shard_positions 6 2 1 = Inr (3, 6)"
    by (simp_all add: shard_positions_def Let_def)
  have 4: "DistributedBatch [a, b, c, d, e, f] 2 0 = Inr [a, b, c]"
    "DistributedBatch [a, b, c, d, e, f] 2 1 = Inr [d, e, f]"
    by (simp_all add: DistributedBatch_def 3 py_slice_def Let_def)
  show ?thesis unfolding 1 2 using 3 4 by simp
qed

section \<open>The cost functions\<close>

lemma without_padding_sum:
  "batch_cost dyn_batch_without_padding xs
     = of_nat (sum_list (map (\<lambda>e. max (length (src e)) (length (trg e))) xs))"
proof (induction xs rule: rev_induct)
  case Nil
  show ?case by (simp add: batch_cost_Nil)
next
  case (snoc x xs)
  show ?case
    unfolding batch_cost_snoc snoc.IH by (simp add: dyn_batch_without_padding_def)
qed

lemma Max_lengths_snoc:
  "Max (insert 0 (f ` set (xs @ [x]))) = max (f x) (Max (insert (0::nat) (f ` set xs)))"
proof -
  have "insert 0 (f ` set (xs @ [x])) = insert (f x) (insert 0 (f ` set xs))" by auto
  then show ?thesis by (simp add: Max_insert)
qed

lemma with_padding_product:
  "batch_cost dyn_batch_with_padding xs
     = of_nat (Max (insert 0 ((\<lambda>e. max (length (src e)) (length (trg e))) ` set xs)))
         * of_nat (length xs)"
proof (induction xs rule: rev_induct)
  case Nil
  show ?case by (simp add: batch_cost_Nil)
next
  case (snoc x xs)
  let ?f = "\<lambda>e::'a example. max (length (src e)) (length (trg e))"
  let ?M = "Max (insert 0 (?f ` set xs))"
  have m: "max (max (of_nat (length (src x))) (of_nat (length (trg x)))) (of_nat ?M :: rat)
            = of_nat (max (?f x) ?M)"
    by (simp add: of_nat_max)
  show ?case
  proof (cases "xs = []")
    case True
    then show ?thesis
      by (simp add: batch_cost_single dyn_batch_with_padding_def of_nat_max)
  next
    case False
    then have pos: "(of_nat (length xs) :: rat) \<noteq> 0" "int (length (xs @ [x])) > 1"
      by auto
    have prev: "(of_nat ?M * of_nat (length xs) :: rat) / of_int (int (length (xs @ [x])) - 1) = of_nat ?M"
      using pos(1) by simp
    show ?thesis
      unfolding batch_cost_snoc snoc.IH Max_lengths_snoc
      unfolding dyn_batch_with_padding_def Let_def
      using pos(2) prev m by (simp del: of_nat_max)
  qed
qed

text \<open>
  Claim C9. The counting function returns the position \<^verbatim>\<open>count\<close>, so the cost of a batch
  is its length. \<^verbatim>\<open>dyn_batch_without_padding\<close> adds the larger of the two field lengths of
  the new example, so the cost of a batch is the sum of these maxima. The cost that
  \<^verbatim>\<open>dyn_batch_with_padding\<close> accumulates from \<open>0\<close> over a batch, with exact division, is the
  largest field length in the batch times the number of its examples.
\<close>

theorem builtin_cost_functions:
  "count_batch_size_fn new count sofar = of_int count
   \<and> batch_cost count_batch_size_fn batch = of_nat (length batch)
   \<and> dyn_batch_without_padding ex i sofar' = sofar' + of_nat (max (length (src ex)) (length (trg ex)))
   \<and> batch_cost dyn_batch_without_padding xs
       = of_nat (sum_list (map (\<lambda>e. max (length (src e)) (length (trg e))) xs))
   \<and> batch_cost dyn_batch_with_padding xs
       = of_nat (Max (insert 0 ((\<lambda>e. max (length (src e)) (length (trg e))) ` set xs)))
           * of_nat (length xs)"
  by (simp only: count_batch_size_fn_def count_cost_length dyn_batch_without_padding_def
        without_padding_sum with_padding_product simp_thms)

section \<open>Resuming an epoch\<close>

text \<open>
  A sequential \<^verbatim>\<open>Sequence2D\<close> field without \<^verbatim>\<open>fix_length\<close> (the way \<^verbatim>\<open>DataLoader\<close>
  builds its fields) raises in \<^verbatim>\<open>pad\<close> on an empty batch and returns on every other one,
  so the constructor of a batch raises for a rank whose slice is empty. A minibatch of
  at least \<^verbatim>\<open>world_size\<close> examples leaves no rank an empty slice.
\<close>

lemma py_max_nonempty: "xs \<noteq> [] \<Longrightarrow> \<exists>m. py_max xs = Inr m"
  by (cases xs) simp_all

lemma Sequence2D_pad_empty:
  assumes "sequential self" and "fix_length self = None"
  shows "Sequence2D_pad self [] = Inl ValueError"
  using assms by (simp add: Sequence2D_pad_def)

lemma Sequence2D_pad_nonempty:
  assumes "fix_length self = None" and "mbatch \<noteq> []"
  shows "\<exists>padded. Sequence2D_pad self mbatch = Inr padded"
proof (cases "sequential self")
  case False
  then show ?thesis by (simp add: Sequence2D_pad_def)
next
  case True
  obtain x rest where mb: "mbatch = x # rest" using assms(2) by (cases mbatch) auto
  obtain m where m: "py_max (map (\<lambda>x. int (length x)) mbatch) = Inr m"
    using py_max_nonempty[of "map (\<lambda>x. int (length x)) mbatch"] assms(2) by auto
  let ?xs = "map (\<lambda>x. [[init_token self]] @ map (\<lambda>word. word @ [Some '' '']) x
                                @ [[eos_token self]]) mbatch"
  let ?padded = "map (\<lambda>x. x @ replicate (nat (max 0 (m + 2 - int (length x))))
                                           [pad_token self]) ?xs"
  have "concat (map (map (\<lambda>word. int (length word))) ?padded) \<noteq> []"
    unfolding mb by simp
  then obtain w where w: "py_max (concat (map (map (\<lambda>word. int (length word))) ?padded)) = Inr w"
    using py_max_nonempty by blast
  have "Sequence2D_pad self mbatch =
          Inr (map (map (\<lambda>word. butlast word
                                      @ replicate (nat (max 0 (w - int (length word))))
                                          (pad_token self)
                                      @ drop (length word - 1) word)) ?padded,
               if include_lengths self
               then Some (map (\<lambda>x. int (length (x @ replicate (nat (max 0 (m + 2 - int (length x))))
                                                        [pad_token self]))
                                      - max 0 (m + 2 - int (length x))) ?xs)
               else None)"
    by (simp only: Sequence2D_pad_def Let_def m w sum.case True[THEN eqTrueI] assms(1)
          if_True if_False simp_thms)
  then show ?thesis by blast
qed

lemma wrap_minibatch_counters:
  "wrap_minibatch (self\<lparr>iterations := a, iterations_this_epoch := b\<rparr>) mbatch
     = wrap_minibatch self mbatch"
  by (simp add: wrap_minibatch_def)

lemma iter_epoch_skip:
  assumes "iterations_this_epoch self > idx"
  shows "iter_epoch idx (mbatch # rest) self = iter_epoch (idx + 1) rest self"
  using assms by simp

lemma iter_epoch_error:
  assumes "\<not> iterations_this_epoch self > idx"
    and "wrap_minibatch self mbatch = Inl e"
  shows "fst (iter_epoch idx (mbatch # rest) self) = []"
  using assms by (cases "sort_within_batch self") (simp_all add: Let_def wrap_minibatch_def)

lemma iter_epoch_yield:
  assumes "\<not> iterations_this_epoch self > idx"
    and "wrap_minibatch self mbatch = Inr batch"
  shows "fst (iter_epoch idx (mbatch # rest) self) =
           batch # fst (iter_epoch (idx + 1) rest
                          (self\<lparr>iterations := iterations self + 1,
                                iterations_this_epoch := iterations_this_epoch self + 1\<rparr>))"
  using assms by (cases "sort_within_batch self") (simp_all add: Let_def wrap_minibatch_def)

lemma iter_epoch_from:
  assumes "iterations_this_epoch self \<le> idx"
  shows "map Inr (fst (iter_epoch idx batches self))
           = takeWhile (\<lambda>r. \<not> isl r) (map (wrap_minibatch self) batches)"
  using assms
proof (induction batches arbitrary: idx self)
  case Nil
  show ?case by simp
next
  case (Cons mbatch rest)
  let ?next = "self\<lparr>iterations := iterations self + 1,
                    iterations_this_epoch := iterations_this_epoch self + 1\<rparr>"
  have noskip: "\<not> iterations_this_epoch self > idx" using Cons.prems by simp
  show ?case
  proof (cases "wrap_minibatch self mbatch")
    case (Inl e)
    show ?thesis
      unfolding iter_epoch_error[OF noskip Inl] using Inl by simp
  next
    case (Inr batch)
    have "map Inr (fst (iter_epoch (idx + 1) rest ?next))
            = takeWhile (\<lambda>r. \<not> isl r) (map (wrap_minibatch ?next) rest)"
      using Cons.prems by (intro Cons.IH) simp
    then have "map Inr (fst (iter_epoch (idx + 1) rest ?next))
            = takeWhile (\<lambda>r. \<not> isl r) (map (wrap_minibatch self) rest)"
      unfolding wrap_minibatch_counters .
    then show ?thesis
      unfolding iter_epoch_yield[OF noskip Inr] using Inr by simp
  qed
qed

lemma iter_epoch_fast_forward:
  "fst (iter_epoch idx batches self) =
   fst (iter_epoch (idx + int (length (take (nat (iterations_this_epoch self - idx)) batches)))
          (drop (nat (iterations_this_epoch self - idx)) batches) self)"
proof (induction batches arbitrary: idx)
  case Nil
  show ?case by simp
next
  case (Cons mbatch rest)
  show ?case
  proof (cases "iterations_this_epoch self > idx")
    case True
    have n: "nat (iterations_this_epoch self - idx) = Suc (nat (iterations_this_epoch self - (idx + 1)))"
      using True by simp
    show ?thesis
      unfolding iter_epoch_skip[OF True] n
      by (subst Cons.IH) (simp add: algebra_simps)
  next
    case False
    then have "nat (iterations_this_epoch self - idx) = 0" by simp
    then show ?thesis by (simp del: iter_epoch.simps)
  qed
qed

lemma iter_epoch_resumed:
  "map Inr (fst (iter_epoch 0 batches (self\<lparr>iterations_this_epoch := k\<rparr>)))
     = takeWhile (\<lambda>r. \<not> isl r) (map (wrap_minibatch self) (drop (nat k) batches))"
proof -
  let ?sk = "self\<lparr>iterations_this_epoch := k\<rparr>"
  have w: "wrap_minibatch ?sk = wrap_minibatch self"
    by (simp add: wrap_minibatch_def fun_eq_iff)
  have 1: "fst (iter_epoch 0 batches ?sk)
           = fst (iter_epoch (int (length (take (nat k) batches))) (drop (nat k) batches) ?sk)"
    using iter_epoch_fast_forward[of 0 batches ?sk] by simp
  show ?thesis
  proof (cases "nat k \<le> length batches")
    case True
    then have "iterations_this_epoch ?sk \<le> int (length (take (nat k) batches))"
      by (simp add: min_def)
    from iter_epoch_from[OF this, of "drop (nat k) batches"] show ?thesis
      unfolding 1 w .
  next
    case False
    then show ?thesis unfolding 1 by simp
  qed
qed

lemma takeWhile_past_prefix:
  "list_all P (take n xs) \<Longrightarrow> drop n (takeWhile P xs) = takeWhile P (drop n xs)"
proof (induction xs arbitrary: n)
  case Nil
  show ?case by simp
next
  case (Cons x xs)
  then show ?case by (cases n) simp_all
qed

lemma py_sort_reverse_length: "length (py_sort_reverse key xs) = length xs"
  by (simp add: py_sort_reverse_def)

lemma wrap_minibatch_returns:
  assumes "world_size_of self \<le> int (length mbatch)"
    and "0 \<le> rank_of self" and "rank_of self < world_size_of self"
    and "\<And>data. data \<noteq> [] \<Longrightarrow> \<not> isl (process_fields (dataset_fields self) data)"
  shows "\<not> isl (wrap_minibatch self mbatch)"
proof -
  let ?W = "world_size_of self" and ?R = "rank_of self"
  let ?mb = "if sort_within_batch self then py_sort_reverse (sort_key_fn self) mbatch else mbatch"
  let ?B = "int (length ?mb)"
  let ?shard = "py_slice ?mb (spec_shard_start ?B ?W ?R) (spec_shard_start ?B ?W (?R + 1))"
  have len: "?W \<le> ?B" using assms(1) by (simp add: py_sort_reverse_length)
  have W1: "1 \<le> ?W" using assms(2,3) by simp
  have "?W div ?W \<le> ?B div ?W" using len W1 by (intro zdiv_mono1) auto
  then have q1: "1 \<le> ?B div ?W" using W1 by simp
  have "1 \<le> int (length ?shard)"
    using shard_length[OF W1 assms(2,3), of ?mb] q1 by (auto split: if_splits)
  then have ne: "?shard \<noteq> []" by auto
  have sl: "DistributedBatch ?mb ?W ?R = Inr ?shard"
    by (rule DistributedBatch_slice[OF W1 assms(2,3)])
  from assms(4)[OF ne] obtain attrs where "process_fields (dataset_fields self) ?shard = Inr attrs"
    by (cases "process_fields (dataset_fields self) ?shard") auto
  then show ?thesis
    unfolding wrap_minibatch_def DistributedBatch_init_def sl by simp
qed

text \<open>
  The claim as it is written fails when the constructor raises on a batch before index
  \<open>k\<close>. With two \<^verbatim>\<open>Sequence2D\<close> fields, a world size of 2 and rank 1, the first of the
  batches \<open>[[7], [8, 9]]\<close> leaves rank 1 the empty slice: the run started with the counter
  0 ends there with \<^verbatim>\<open>ValueError\<close> and has yielded nothing, while the run with the counter
  loaded as 1 skips that batch and yields the batch made of example 9.
\<close>

theorem resume_suffix_counterexample:
  "fst (iter_epoch 0
         [[\<lparr>src = [[Some ''7'']], trg = [[Some ''7'']]\<rparr>],
          [\<lparr>src = [[Some ''8'']], trg = [[Some ''8'']]\<rparr>, \<lparr>src = [[Some ''9'']], trg = [[Some ''9'']]\<rparr>]]
         (\<lparr>iterations = 0, iterations_this_epoch = 0, sort_within_batch = False,
           sort_key_fn = (\<lambda>ex. length (src ex)), world_size_of = 2, rank_of = 1,
           dataset_fields =
            [(src, Some (Sequence2D_process Inr
                   \<lparr>sequential = True, fix_length = None, init_token = Some ''<init>'',
                    eos_token = Some ''<eos>'', pad_token = Some ''<pad>'', include_lengths = False\<rparr>)),
             (trg, Some (Sequence2D_process Inr
                   \<lparr>sequential = True, fix_length = None, init_token = Some ''<init>'',
                    eos_token = Some ''<eos>'', pad_token = Some ''<pad>'', include_lengths = False\<rparr>))]\<rparr>
          \<lparr>iterations_this_epoch := 0\<rparr>)) = []
   \<and> fst (snd (iter_epoch 0
         [[\<lparr>src = [[Some ''7'']], trg = [[Some ''7'']]\<rparr>],
          [\<lparr>src = [[Some ''8'']], trg = [[Some ''8'']]\<rparr>, \<lparr>src = [[Some ''9'']], trg = [[Some ''9'']]\<rparr>]]
         (\<lparr>iterations = 0, iterations_this_epoch = 0, sort_within_batch = False,
           sort_key_fn = (\<lambda>ex. length (src ex)), world_size_of = 2, rank_of = 1,
           dataset_fields =
            [(src, Some (Sequence2D_process Inr
                   \<lparr>sequential = True, fix_length = None, init_token = Some ''<init>'',
                    eos_token = Some ''<eos>'', pad_token = Some ''<pad>'', include_lengths = False\<rparr>)),
             (trg, Some (Sequence2D_process Inr
                   \<lparr>sequential = True, fix_length = None, init_token = Some ''<init>'',
                    eos_token = Some ''<eos>'', pad_token = Some ''<pad>'', include_lengths = False\<rparr>))]\<rparr>
          \<lparr>iterations_this_epoch := 0\<rparr>))) = Some ValueError
   \<and> fst (iter_epoch 0
         [[\<lparr>src = [[Some ''7'']], trg = [[Some ''7'']]\<rparr>],
          [\<lparr>src = [[Some ''8'']], trg = [[Some ''8'']]\<rparr>, \<lparr>src = [[Some ''9'']], trg = [[Some ''9'']]\<rparr>]]
         (\<lparr>iterations = 0, iterations_this_epoch = 0, sort_within_batch = False,
           sort_key_fn = (\<lambda>ex. length (src ex)), world_size_of = 2, rank_of = 1,
           dataset_fields =
            [(src, Some (Sequence2D_process Inr
                   \<lparr>sequential = True, fix_length = None, init_token = Some ''<init>'',
                    eos_token = Some ''<eos>'', pad_token = Some ''<pad>'', include_lengths = False\<rparr>)),
             (trg, Some (Sequence2D_process Inr
                   \<lparr>sequential = True, fix_length = None, init_token = Some ''<init>'',
                    eos_token = Some ''<eos>'', pad_token = Some ''<pad>'', include_lengths = False\<rparr>))]\<rparr>
          \<lparr>iterations_this_epoch := 1\<rparr>))
       = [\<lparr>batch_size_of = 1,
           attributes =
             [([[[Some ''<pad>'', Some ''<init>''], [Some ''9'', Some '' ''],
                 [Some ''<pad>'', Some ''<eos>'']]], None),
              ([[[Some ''<pad>'', Some ''<init>''], [Some ''9'', Some '' ''],
                 [Some ''<pad>'', Some ''<eos>'']]], None)]\<rparr>]
   \<and> fst (iter_epoch 0
         [[\<lparr>src = [[Some ''7'']], trg = [[Some ''7'']]\<rparr>],
          [\<lparr>src = [[Some ''8'']], trg = [[Some ''8'']]\<rparr>, \<lparr>src = [[Some ''9'']], trg = [[Some ''9'']]\<rparr>]]
         (\<lparr>iterations = 0, iterations_this_epoch = 0, sort_within_batch = False,
           sort_key_fn = (\<lambda>ex. length (src ex)), world_size_of = 2, rank_of = 1,
           dataset_fields =
            [(src, Some (Sequence2D_process Inr
                   \<lparr>sequential = True, fix_length = None, init_token = Some ''<init>'',
                    eos_token = Some ''<eos>'', pad_token = Some ''<pad>'', include_lengths = False\<rparr>)),
             (trg, Some (Sequence2D_process Inr
                   \<lparr>sequential = True, fix_length = None, init_token = Some ''<init>'',
                    eos_token = Some ''<eos>'', pad_token = Some ''<pad>'', include_lengths = False\<rparr>))]\<rparr>
          \<lparr>iterations_this_epoch := 1\<rparr>))
       \<noteq> drop (nat 1) (fst (iter_epoch 0
         [[\<lparr>src = [[Some ''7'']], trg = [[Some ''7'']]\<rparr>],
          [\<lparr>src = [[Some ''8'']], trg = [[Some ''8'']]\<rparr>, \<lparr>src = [[Some ''9'']], trg = [[Some ''9'']]\<rparr>]]
         (\<lparr>iterations = 0, iterations_this_epoch = 0, sort_within_batch = False,
           sort_key_fn = (\<lambda>ex. length (src ex)), world_size_of = 2, rank_of = 1,
           dataset_fields =
            [(src, Some (Sequence2D_process Inr
                   \<lparr>sequential = True, fix_length = None, init_token = Some ''<init>'',
                    eos_token = Some ''<eos>'', pad_token = Some ''<pad>'', include_lengths = False\<rparr>)),
             (trg, Some (Sequence2D_process Inr
                   \<lparr>sequential = True, fix_length = None, init_token = Some ''<init>'',
                    eos_token = Some ''<eos>'', pad_token = Some ''<pad>'', include_lengths = False\<rparr>))]\<rparr>
          \<lparr>iterations_this_epoch := 0\<rparr>)))"
proof -
  let ?F = "\<lparr>sequential = True, fix_length = None, init_token = Some ''<init>'',
            eos_token = Some ''<eos>'', pad_token = Some ''<pad>'', include_lengths = False\<rparr>"
  let ?B = "[[\<lparr>src = [[Some ''7'']], trg = [[Some ''7'']]\<rparr>],
          [\<lparr>src = [[Some ''8'']], trg = [[Some ''8'']]\<rparr>, \<lparr>src = [[Some ''9'']], trg = [[Some ''9'']]\<rparr>]]"
  let ?S = "\<lparr>iterations = 0, iterations_this_epoch = 0, sort_within_batch = False,
           sort_key_fn = (\<lambda>ex. length (src ex)), world_size_of = 2, rank_of = 1,
           dataset_fields = [(src, Some (Sequence2D_process Inr ?F)),
                             (trg, Some (Sequence2D_process Inr ?F))]\<rparr>"
  have fresh: "fst (iter_epoch 0 ?B (?S\<lparr>iterations_this_epoch := 0\<rparr>)) = []"
    by code_simp
  have raised: "fst (snd (iter_epoch 0 ?B (?S\<lparr>iterations_this_epoch := 0\<rparr>))) = Some ValueError"
    by code_simp
  have resumed: "fst (iter_epoch 0 ?B (?S\<lparr>iterations_this_epoch := 1\<rparr>))
       = [\<lparr>batch_size_of = 1,
           attributes =
             [([[[Some ''<pad>'', Some ''<init>''], [Some ''9'', Some '' ''],
                 [Some ''<pad>'', Some ''<eos>'']]], None),
              ([[[Some ''<pad>'', Some ''<init>''], [Some ''9'', Some '' ''],
                 [Some ''<pad>'', Some ''<eos>'']]], None)]\<rparr>]"
    by code_simp
  show ?thesis
    unfolding fresh raised resumed by simp
qed

text \<open>
  Claim C6, amended. When the constructor returns for the iterator's rank on each of the
  batches before index \<open>k\<close>, the epoch loop started with the counter
  \<^verbatim>\<open>_iterations_this_epoch\<close> loaded as \<open>k\<close> yields, for each batch from index \<open>k\<close> on and up
  to the first one on which the constructor raises, that batch sorted (when
  \<^verbatim>\<open>sort_within_batch\<close> is set) and wrapped for the rank; and these are the batches that
  the loop started with the counter \<open>0\<close> yields from index \<open>k\<close> on. A counter that is
  negative skips nothing.
\<close>

theorem resume_yields_suffix:
  assumes "list_all (\<lambda>mbatch. \<not> isl (wrap_minibatch self mbatch)) (take (nat k) batches)"
  shows "map Inr (fst (iter_epoch 0 batches (self\<lparr>iterations_this_epoch := k\<rparr>)))
           = takeWhile (\<lambda>r. \<not> isl r) (map (wrap_minibatch self) (drop (nat k) batches))
         \<and> fst (iter_epoch 0 batches (self\<lparr>iterations_this_epoch := k\<rparr>))
           = drop (nat k) (fst (iter_epoch 0 batches (self\<lparr>iterations_this_epoch := 0\<rparr>)))"
proof -
  let ?wrapped = "map (wrap_minibatch self) batches"
  note resumed = iter_epoch_resumed[where batches=batches and self=self and k=k]
  have fresh: "map Inr (fst (iter_epoch 0 batches (self\<lparr>iterations_this_epoch := 0\<rparr>)))
                 = takeWhile (\<lambda>r. \<not> isl r) ?wrapped"
    using iter_epoch_resumed[where batches=batches and self=self and k=0] by simp
  have "list_all (\<lambda>r. \<not> isl r) (take (nat k) ?wrapped)"
    using assms by (simp add: take_map list_all_iff)
  then have past: "drop (nat k) (takeWhile (\<lambda>r. \<not> isl r) ?wrapped)
               = takeWhile (\<lambda>r. \<not> isl r) (drop (nat k) ?wrapped)"
    by (rule takeWhile_past_prefix)
  have "map Inr (drop (nat k) (fst (iter_epoch 0 batches (self\<lparr>iterations_this_epoch := 0\<rparr>))))
          = drop (nat k) (map Inr (fst (iter_epoch 0 batches (self\<lparr>iterations_this_epoch := 0\<rparr>))))"
    by (simp only: drop_map)
  also have "\<dots> = drop (nat k) (takeWhile (\<lambda>r. \<not> isl r) ?wrapped)"
    by (simp only: fresh)
  also have "\<dots> = takeWhile (\<lambda>r. \<not> isl r) (drop (nat k) ?wrapped)"
    by (rule past)
  also have "\<dots> = takeWhile (\<lambda>r. \<not> isl r) (map (wrap_minibatch self) (drop (nat k) batches))"
    by (simp only: drop_map)
  also have "\<dots> = map Inr (fst (iter_epoch 0 batches (self\<lparr>iterations_this_epoch := k\<rparr>)))"
    by (simp only: resumed)
  finally have "drop (nat k) (fst (iter_epoch 0 batches (self\<lparr>iterations_this_epoch := 0\<rparr>)))
               = fst (iter_epoch 0 batches (self\<lparr>iterations_this_epoch := k\<rparr>))"
    by (simp add: inj_map_eq_map)
  with resumed show ?thesis by simp
qed

theorem resume_yields_suffix_witness:
  "list_all (\<lambda>mbatch. \<not> isl (wrap_minibatch
         \<lparr>iterations = 0, iterations_this_epoch = 0, sort_within_batch = True,
           sort_key_fn = (\<lambda>ex. length (src ex)), world_size_of = 2, rank_of = 0,
           dataset_fields =
            [(src, Some (Sequence2D_process Inr
                   \<lparr>sequential = True, fix_length = None, init_token = Some ''<init>'',
                    eos_token = Some ''<eos>'', pad_token = Some ''<pad>'', include_lengths = False\<rparr>)),
             (trg, Some (Sequence2D_process Inr
                   \<lparr>sequential = True, fix_length = None, init_token = Some ''<init>'',
                    eos_token = Some ''<eos>'', pad_token = Some ''<pad>'', include_lengths = False\<rparr>))]\<rparr> mbatch))
      (take (nat 1)
         [[\<lparr>src = [[Some ''7'']], trg = [[Some ''7'']]\<rparr>, \<lparr>src = [[Some ''8'']], trg = [[Some ''8'']]\<rparr>],
          [\<lparr>src = [[Some ''8'']], trg = [[Some ''8'']]\<rparr>, \<lparr>src = [[Some ''9'']], trg = [[Some ''9'']]\<rparr>, \<lparr>src = [[Some ''7'']], trg = [[Some ''7'']]\<rparr>]])
   \<and> map Inr (fst (iter_epoch 0
         [[\<lparr>src = [[Some ''7'']], trg = [[Some ''7'']]\<rparr>, \<lparr>src = [[Some ''8'']], trg = [[Some ''8'']]\<rparr>],
          [\<lparr>src = [[Some ''8'']], trg = [[Some ''8'']]\<rparr>, \<lparr>src = [[Some ''9'']], trg = [[Some ''9'']]\<rparr>, \<lparr>src = [[Some ''7'']], trg = [[Some ''7'']]\<rparr>]]
         (\<lparr>iterations = 0, iterations_this_epoch = 0, sort_within_batch = True,
           sort_key_fn = (\<lambda>ex. length (src ex)), world_size_of = 2, rank_of = 0,
           dataset_fields =
            [(src, Some (Sequence2D_process Inr
                   \<lparr>sequential = True, fix_length = None, init_token = Some ''<init>'',
                    eos_token = Some ''<eos>'', pad_token = Some ''<pad>'', include_lengths = False\<rparr>)),
             (trg, Some (Sequence2D_process Inr
                   \<lparr>sequential = True, fix_length = None, init_token = Some ''<init>'',
                    eos_token = Some ''<eos>'', pad_token = Some ''<pad>'', include_lengths = False\<rparr>))]\<rparr>
          \<lparr>iterations_this_epoch := 1\<rparr>)))
       = takeWhile (\<lambda>r. \<not> isl r) (map (wrap_minibatch
         \<lparr>iterations = 0, iterations_this_epoch = 0, sort_within_batch = True,
           sort_key_fn = (\<lambda>ex. length (src ex)), world_size_of = 2, rank_of = 0,
           dataset_fields =
            [(src, Some (Sequence2D_process Inr
                   \<lparr>sequential = True, fix_length = None, init_token = Some ''<init>'',
                    eos_token = Some ''<eos>'', pad_token = Some ''<pad>'', include_lengths = False\<rparr>)),
             (trg, Some (Sequence2D_process Inr
                   \<lparr>sequential = True, fix_length = None, init_token = Some ''<init>'',
                    eos_token = Some ''<eos>'', pad_token = Some ''<pad>'', include_lengths = False\<rparr>))]\<rparr>)
         (drop (nat 1)
         [[\<lparr>src = [[Some ''7'']], trg = [[Some ''7'']]\<rparr>, \<lparr>src = [[Some ''8'']], trg = [[Some ''8'']]\<rparr>],
          [\<lparr>src = [[Some ''8'']], trg = [[Some ''8'']]\<rparr>, \<lparr>src = [[Some ''9'']], trg = [[Some ''9'']]\<rparr>, \<lparr>src = [[Some ''7'']], trg = [[Some ''7'']]\<rparr>]]))
   \<and> fst (iter_epoch 0
         [[\<lparr>src = [[Some ''7'']], trg = [[Some ''7'']]\<rparr>, \<lparr>src = [[Some ''8'']], trg = [[Some ''8'']]\<rparr>],
          [\<lparr>src = [[Some ''8'']], trg = [[Some ''8'']]\<rparr>, \<lparr>src = [[Some ''9'']], trg = [[Some ''9'']]\<rparr>, \<lparr>src = [[Some ''7'']], trg = [[Some ''7'']]\<rparr>]]
         (\<lparr>iterations = 0, iterations_this_epoch = 0, sort_within_batch = True,
           sort_key_fn = (\<lambda>ex. length (src ex)), world_size_of = 2, rank_of = 0,
           dataset_fields =
            [(src, Some (Sequence2D_process Inr
                   \<lparr>sequential = True, fix_length = None, init_token = Some ''<init>'',
                    eos_token = Some ''<eos>'', pad_token = Some ''<pad>'', include_lengths = False\<rparr>)),
             (trg, Some (Sequence2D_process Inr
                   \<lparr>sequential = True, fix_length = None, init_token = Some ''<init>'',
                    eos_token = Some ''<eos>'', pad_token = Some ''<pad>'', include_lengths = False\<rparr>))]\<rparr>
          \<lparr>iterations_this_epoch := 1\<rparr>))
       = drop (nat 1) (fst (iter_epoch 0
         [[\<lparr>src = [[Some ''7'']], trg = [[Some ''7'']]\<rparr>, \<lparr>src = [[Some ''8'']], trg = [[Some ''8'']]\<rparr>],
          [\<lparr>src = [[Some ''8'']], trg = [[Some ''8'']]\<rparr>, \<lparr>src = [[Some ''9'']], trg = [[Some ''9'']]\<rparr>, \<lparr>src = [[Some ''7'']], trg = [[Some ''7'']]\<rparr>]]
         (\<lparr>iterations = 0, iterations_this_epoch = 0, sort_within_batch = True,
           sort_key_fn = (\<lambda>ex. length (src ex)), world_size_of = 2, rank_of = 0,
           dataset_fields =
            [(src, Some (Sequence2D_process Inr
                   \<lparr>sequential = True, fix_length = None, init_token = Some ''<init>'',
                    eos_token = Some ''<eos>'', pad_token = Some ''<pad>'', include_lengths = False\<rparr>)),
             (trg, Some (Sequence2D_process Inr
                   \<lparr>sequential = True, fix_length = None, init_token = Some ''<init>'',
                    eos_token = Some ''<eos>'', pad_token = Some ''<pad>'', include_lengths = False\<rparr>))]\<rparr>
          \<lparr>iterations_this_epoch := 0\<rparr>)))
   \<and> map batch_size_of (fst (iter_epoch 0
         [[\<lparr>src = [[Some ''7'']], trg = [[Some ''7'']]\<rparr>, \<lparr>src = [[Some ''8'']], trg = [[Some ''8'']]\<rparr>],
          [\<lparr>src = [[Some ''8'']], trg = [[Some ''8'']]\<rparr>, \<lparr>src = [[Some ''9'']], trg = [[Some ''9'']]\<rparr>, \<lparr>src = [[Some ''7'']], trg = [[Some ''7'']]\<rparr>]]
         (\<lparr>iterations = 0, iterations_this_epoch = 0, sort_within_batch = True,
           sort_key_fn = (\<lambda>ex. length (src ex)), world_size_of = 2, rank_of = 0,
           dataset_fields =
            [(src, Some (Sequence2D_process Inr
                   \<lparr>sequential = True, fix_length = None, init_token = Some ''<init>'',
                    eos_token = Some ''<eos>'', pad_token = Some ''<pad>'', include_lengths = False\<rparr>)),
             (trg, Some (Sequence2D_process Inr
                   \<lparr>sequential = True, fix_length = None, init_token = Some ''<init>'',
                    eos_token = Some ''<eos>'', pad_token = Some ''<pad>'', include_lengths = False\<rparr>))]\<rparr>
          \<lparr>iterations_this_epoch := 0\<rparr>))) = [1, 2]
   \<and> map batch_size_of (fst (iter_epoch 0
         [[\<lparr>src = [[Some ''7'']], trg = [[Some ''7'']]\<rparr>, \<lparr>src = [[Some ''8'']], trg = [[Some ''8'']]\<rparr>],
          [\<lparr>src = [[Some ''8'']], trg = [[Some ''8'']]\<rparr>, \<lparr>src = [[Some ''9'']], trg = [[Some ''9'']]\<rparr>, \<lparr>src = [[Some ''7'']], trg = [[Some ''7'']]\<rparr>]]
         (\<lparr>iterations = 0, iterations_this_epoch = 0, sort_within_batch = True,
           sort_key_fn = (\<lambda>ex. length (src ex)), world_size_of = 2, rank_of = 0,
           dataset_fields =
            [(src, Some (Sequence2D_process Inr
                   \<lparr>sequential = True, fix_length = None, init_token = Some ''<init>'',
                    eos_token = Some ''<eos>'', pad_token = Some ''<pad>'', include_lengths = False\<rparr>)),
             (trg, Some (Sequence2D_process Inr
                   \<lparr>sequential = True, fix_length = None, init_token = Some ''<init>'',
                    eos_token = Some ''<eos>'', pad_token = Some ''<pad>'', include_lengths = False\<rparr>))]\<rparr>
          \<lparr>iterations_this_epoch := 1\<rparr>))) = [2]"
proof -
  let ?F = "\<lparr>sequential = True, fix_length = None, init_token = Some ''<init>'',
                    eos_token = Some ''<eos>'', pad_token = Some ''<pad>'', include_lengths = False\<rparr>"
  let ?B = "[[\<lparr>src = [[Some ''7'']], trg = [[Some ''7'']]\<rparr>, \<lparr>src = [[Some ''8'']], trg = [[Some ''8'']]\<rparr>],
          [\<lparr>src = [[Some ''8'']], trg = [[Some ''8'']]\<rparr>, \<lparr>src = [[Some ''9'']], trg = [[Some ''9'']]\<rparr>, \<lparr>src = [[Some ''7'']], trg = [[Some ''7'']]\<rparr>]]"
  let ?S = "\<lparr>iterations = 0, iterations_this_epoch = 0, sort_within_batch = True,
           sort_key_fn = (\<lambda>ex. length (src ex)), world_size_of = 2, rank_of = 0,
           dataset_fields =
            [(src, Some (Sequence2D_process Inr
                   \<lparr>sequential = True, fix_length = None, init_token = Some ''<init>'',
                    eos_token = Some ''<eos>'', pad_token = Some ''<pad>'', include_lengths = False\<rparr>)),
             (trg, Some (Sequence2D_process Inr
                   \<lparr>sequential = True, fix_length = None, init_token = Some ''<init>'',
                    eos_token = Some ''<eos>'', pad_token = Some ''<pad>'', include_lengths = False\<rparr>))]\<rparr>"
  have h: "list_all (\<lambda>mbatch. \<not> isl (wrap_minibatch ?S mbatch)) (take (nat 1) ?B)"
    by code_simp
  note t = resume_yields_suffix[OF h]
  have v0: "map batch_size_of (fst (iter_epoch 0 ?B (?S\<lparr>iterations_this_epoch := 0\<rparr>))) = [1, 2]"
    by code_simp
  have v1: "map batch_size_of (fst (iter_epoch 0 ?B (?S\<lparr>iterations_this_epoch := 1\<rparr>))) = [2]"
    by code_simp
  show ?thesis
    by (rule conjI[OF h conjI[OF conjunct1[OF t] conjI[OF conjunct2[OF t] conjI[OF v0 v1]]]])
qed

section \<open>Filtering the lines\<close>

lemma flag_too_long_iff:
  "flag_too_long isspace m ls \<longleftrightarrow> \<not> list_all (\<lambda>l. int (length (py_split isspace l)) \<le> m) ls"
  by (induction ls) auto

lemma any_empty_iff:
  "list_ex (\<lambda>line. line = []) (map (py_strip isspace) lines)
     \<longleftrightarrow> \<not> list_all (\<lambda>line. py_strip isspace line \<noteq> []) lines"
  by (induction lines) auto

lemma flush_cache_ok:
  assumes "buffer \<noteq> 0"
  shows "\<exists>ys st'. flush_cache buffer st = Inr (ys, st')
           \<and> ys @ examples st' = examples st \<and> out_step st' = out_step st"
  using assms by (simp add: flush_cache_def)

lemma reader_step_ok:
  assumes "buffer \<noteq> 0"
  shows "\<exists>ys st'. reader_step isspace max_len buffer lines st = Inr (ys, st')
           \<and> ys @ examples st' =
               examples st @ (if spec_keeps isspace max_len lines
                              then [map (py_strip isspace) lines] else [])
           \<and> out_step st' = out_step st + (if spec_keeps isspace max_len lines then 1 else 0)"
proof (cases "spec_keeps isspace max_len lines")
  case True
  then have a: "\<not> list_ex (\<lambda>line. line = []) (map (py_strip isspace) lines)"
    and b: "\<not> (case max_len of None \<Rightarrow> False
               | Some m \<Rightarrow> flag_too_long isspace m (map (py_strip isspace) lines))"
    by (auto simp: spec_keeps_def any_empty_iff flag_too_long_iff list_all_iff split: option.splits)
  let ?st = "st\<lparr>examples := examples st @ [map (py_strip isspace) lines], out_step := out_step st + 1\<rparr>"
  have "reader_step isspace max_len buffer lines st = flush_cache buffer ?st"
    using a b by (simp add: reader_step_def Let_def)
  then show ?thesis
    using flush_cache_ok[OF assms, of ?st] True by auto
next
  case False
  show ?thesis
  proof (cases "list_ex (\<lambda>line. line = []) (map (py_strip isspace) lines)")
    case True
    then have "reader_step isspace max_len buffer lines st = flush_cache buffer st"
      by (simp add: reader_step_def Let_def)
    then show ?thesis
      using flush_cache_ok[OF assms, of st] False by auto
  next
    case a: False
    then have "case max_len of None \<Rightarrow> False
               | Some m \<Rightarrow> flag_too_long isspace m (map (py_strip isspace) lines)"
      using False
      by (auto simp: spec_keeps_def any_empty_iff flag_too_long_iff list_all_iff split: option.splits)
    then have "reader_step isspace max_len buffer lines st = Inr ([], st)"
      using a by (simp add: reader_step_def Let_def)
    then show ?thesis using False by simp
  qed
qed

lemma read_files_ok:
  assumes "buffer \<noteq> 0"
  shows "\<exists>ys st'. read_files isspace max_len buffer files st = Inr (ys, st')
           \<and> ys @ examples st' =
               examples st @ map (map (py_strip isspace)) (filter (spec_keeps isspace max_len) files)
           \<and> out_step st' = out_step st + int (length (filter (spec_keeps isspace max_len) files))"
proof (induction files arbitrary: st)
  case Nil
  show ?case by simp
next
  case (Cons lines rest)
  obtain ys st1 where 1: "reader_step isspace max_len buffer lines st = Inr (ys, st1)"
    "ys @ examples st1 = examples st @ (if spec_keeps isspace max_len lines
                              then [map (py_strip isspace) lines] else [])"
    "out_step st1 = out_step st + (if spec_keeps isspace max_len lines then 1 else 0)"
    using reader_step_ok[OF assms, of isspace max_len lines st] by blast
  obtain zs st2 where 2: "read_files isspace max_len buffer rest st1 = Inr (zs, st2)"
    "zs @ examples st2 =
       examples st1 @ map (map (py_strip isspace)) (filter (spec_keeps isspace max_len) rest)"
    "out_step st2 = out_step st1 + int (length (filter (spec_keeps isspace max_len) rest))"
    using Cons.IH[of st1] by blast
  have r: "read_files isspace max_len buffer (lines # rest) st = Inr (ys @ zs, st2)"
    using 1(1) 2(1) by simp
  have "(ys @ zs) @ examples st2 = ys @ examples st1
          @ map (map (py_strip isspace)) (filter (spec_keeps isspace max_len) rest)"
    using 2(2) by simp
  also have "\<dots> = examples st @ map (map (py_strip isspace))
                       (filter (spec_keeps isspace max_len) (lines # rest))"
    using 1(2) by (simp only: append_assoc[symmetric]) simp
  finally have c: "(ys @ zs) @ examples st2 = examples st @ map (map (py_strip isspace))
                       (filter (spec_keeps isspace max_len) (lines # rest))" .
  have o: "out_step st2 = out_step st + int (length (filter (spec_keeps isspace max_len) (lines # rest)))"
    using 1(3) 2(3) by simp
  from r c o show ?case by blast
qed

lemma lazy_reader_conserves:
  assumes "buffer \<noteq> 0"
  shows "\<exists>ys st'. lazy_reader passes isspace max_len buffer files st = Inr (ys, st')
           \<and> ys @ examples st' =
               examples st @ concat (replicate passes
                  (map (map (py_strip isspace)) (filter (spec_keeps isspace max_len) files)))
           \<and> out_step st' =
               out_step st + int passes * int (length (filter (spec_keeps isspace max_len) files))"
proof (induction passes arbitrary: st)
  case 0
  show ?case by simp
next
  case (Suc passes)
  let ?kept = "map (map (py_strip isspace)) (filter (spec_keeps isspace max_len) files)"
  let ?n = "int (length (filter (spec_keeps isspace max_len) files))"
  obtain ys st1 where 1: "read_files isspace max_len buffer files st = Inr (ys, st1)"
    "ys @ examples st1 = examples st @ ?kept"
    "out_step st1 = out_step st + ?n"
    using read_files_ok[OF assms, of isspace max_len files st] by blast
  obtain zs st2 where 2: "lazy_reader passes isspace max_len buffer files st1 = Inr (zs, st2)"
    "zs @ examples st2 = examples st1 @ concat (replicate passes ?kept)"
    "out_step st2 = out_step st1 + int passes * ?n"
    using Suc.IH[of st1] by blast
  have r: "lazy_reader (Suc passes) isspace max_len buffer files st = Inr (ys @ zs, st2)"
    using 1(1) 2(1) by simp
  have "(ys @ zs) @ examples st2 = (ys @ examples st1) @ concat (replicate passes ?kept)"
    using 2(2) by simp
  also have "\<dots> = examples st @ concat (replicate (Suc passes) ?kept)"
    unfolding 1(2) by simp
  finally have c: "(ys @ zs) @ examples st2 = examples st @ concat (replicate (Suc passes) ?kept)" .
  have o: "out_step st2 = out_step st + int (Suc passes) * ?n"
    using 1(3) 2(3) by (simp add: algebra_simps)
  from r c o show ?case by blast
qed

text \<open>
  The cache holds \<^verbatim>\<open>out_step % buffer\<close> examples: every example that is kept is yielded
  as soon as \<^verbatim>\<open>out_step\<close> reaches the next multiple of \<^verbatim>\<open>buffer\<close>.
\<close>

lemma mod_next:
  assumes "0 < (b::int)" and "(a + 1) mod b \<noteq> 0"
  shows "(a + 1) mod b = a mod b + 1"
proof -
  have r: "0 \<le> a mod b" "a mod b < b" using assms(1) by simp_all
  have e: "(a + 1) mod b = (a mod b + 1) mod b" by (simp add: mod_add_left_eq)
  have "a mod b + 1 \<noteq> b"
  proof
    assume "a mod b + 1 = b"
    then have "(a mod b + 1) mod b = 0" by simp
    with e assms(2) show False by simp
  qed
  then have "a mod b + 1 < b" using r by linarith
  then have "(a mod b + 1) mod b = a mod b + 1"
    using r by (intro mod_pos_pos_trivial) linarith+
  with e show ?thesis by simp
qed

lemma flush_cache_size:
  assumes "0 < buffer" and "0 \<le> out_step st"
    and "int (length (examples st)) = out_step st mod buffer"
    and "flush_cache buffer st = Inr (ys, st')"
  shows "0 \<le> out_step st' \<and> int (length (examples st')) = out_step st' mod buffer"
  using assms by (auto simp: flush_cache_def split: if_splits)

lemma reader_step_size:
  assumes "0 < buffer" and "0 \<le> out_step st"
    and "int (length (examples st)) = out_step st mod buffer"
    and "reader_step isspace max_len buffer lines st = Inr (ys, st')"
  shows "0 \<le> out_step st' \<and> int (length (examples st')) = out_step st' mod buffer"
proof -
  let ?ls = "map (py_strip isspace) lines"
  let ?st = "st\<lparr>examples := examples st @ [?ls], out_step := out_step st + 1\<rparr>"
  have "reader_step isspace max_len buffer lines st = Inr ([], st)
        \<or> reader_step isspace max_len buffer lines st = flush_cache buffer st
        \<or> reader_step isspace max_len buffer lines st = flush_cache buffer ?st"
    by (cases "list_ex (\<lambda>line. line = []) ?ls";
        cases "case max_len of None \<Rightarrow> False | Some m \<Rightarrow> flag_too_long isspace m ?ls")
       (simp_all add: reader_step_def Let_def)
  then consider (skip) "reader_step isspace max_len buffer lines st = Inr ([], st)"
    | (same) "reader_step isspace max_len buffer lines st = flush_cache buffer st"
    | (app) "reader_step isspace max_len buffer lines st = flush_cache buffer ?st"
    by blast
  then show ?thesis
  proof cases
    case skip
    then show ?thesis using assms by simp
  next
    case same
    then have "flush_cache buffer st = Inr (ys, st')" using assms(4) by simp
    then show ?thesis by (rule flush_cache_size[OF assms(1,2,3)])
  next
    case app
    then have f: "flush_cache buffer ?st = Inr (ys, st')" using assms(4) by simp
    show ?thesis
    proof (cases "(out_step st + 1) mod buffer = 0")
      case True
      then show ?thesis using f assms(1,2) by (auto simp: flush_cache_def split: if_splits)
    next
      case False
      have "int (length (examples ?st)) = out_step ?st mod buffer"
        using mod_next[OF assms(1) False] assms(3) by simp
      moreover have "0 \<le> out_step ?st" using assms(2) by simp
      ultimately show ?thesis using flush_cache_size[OF assms(1) _ _ f] by blast
    qed
  qed
qed

lemma read_files_size:
  assumes "0 < buffer"
  shows "0 \<le> out_step st \<Longrightarrow> int (length (examples st)) = out_step st mod buffer
         \<Longrightarrow> read_files isspace max_len buffer files st = Inr (ys, st')
         \<Longrightarrow> 0 \<le> out_step st' \<and> int (length (examples st')) = out_step st' mod buffer"
proof (induction files arbitrary: st ys)
  case Nil
  then show ?case by simp
next
  case (Cons lines rest)
  from Cons.prems(3) obtain ys1 st1 zs where
    1: "reader_step isspace max_len buffer lines st = Inr (ys1, st1)"
    and 2: "read_files isspace max_len buffer rest st1 = Inr (zs, st')"
    by (auto split: sum.splits)
  from reader_step_size[OF assms Cons.prems(1,2) 1]
  have "0 \<le> out_step st1" "int (length (examples st1)) = out_step st1 mod buffer" by simp_all
  from Cons.IH[OF this 2] show ?case .
qed

lemma lazy_reader_size:
  assumes "0 < buffer"
  shows "0 \<le> out_step st \<Longrightarrow> int (length (examples st)) = out_step st mod buffer
         \<Longrightarrow> lazy_reader passes isspace max_len buffer files st = Inr (ys, st')
         \<Longrightarrow> 0 \<le> out_step st' \<and> int (length (examples st')) = out_step st' mod buffer"
proof (induction passes arbitrary: st ys)
  case 0
  then show ?case by simp
next
  case (Suc passes)
  from Suc.prems(3) obtain ys1 st1 zs where
    1: "read_files isspace max_len buffer files st = Inr (ys1, st1)"
    and 2: "lazy_reader passes isspace max_len buffer files st1 = Inr (zs, st')"
    by (auto split: sum.splits)
  from read_files_size[OF assms Suc.prems(1,2) 1]
  have "0 \<le> out_step st1" "int (length (examples st1)) = out_step st1 mod buffer" by simp_all
  from Suc.IH[OF this 2] show ?case .
qed

text \<open>
  Claim C7. With a \<^verbatim>\<open>buffer\<close> other than zero, \<^verbatim>\<open>lazy_reader\<close> raises nothing, and over
  any number of passes the examples it has yielded, followed by those still in its cache,
  are the examples it started with in the cache followed by, for each pass and in the order
  of the files, the stripped tuples that the filter of the specification keeps: a tuple
  with an empty field, or with a field of more than \<^verbatim>\<open>max_len\<close> words, leaves no trace.
  With a positive \<^verbatim>\<open>buffer\<close> the cache holds \<^verbatim>\<open>out_step % buffer\<close> examples, from the
  first call on: all the examples that were kept, but the last \<^verbatim>\<open>out_step % buffer\<close> of
  them, have been yielded.
\<close>

theorem reader_filter:
  assumes "buffer \<noteq> 0"
  shows "\<exists>ys st'. lazy_reader passes isspace max_len buffer files st = Inr (ys, st')
           \<and> ys @ examples st' =
               examples st @ concat (replicate passes
                  (map (map (py_strip isspace)) (filter (spec_keeps isspace max_len) files)))
           \<and> out_step st' =
               out_step st + int passes * int (length (filter (spec_keeps isspace max_len) files))
           \<and> (0 < buffer \<and> 0 \<le> out_step st
                 \<and> int (length (examples st)) = out_step st mod buffer
               \<longrightarrow> int (length (examples st')) = out_step st' mod buffer)"
proof -
  obtain ys st' where r: "lazy_reader passes isspace max_len buffer files st = Inr (ys, st')"
    and c: "ys @ examples st' =
               examples st @ concat (replicate passes
                  (map (map (py_strip isspace)) (filter (spec_keeps isspace max_len) files)))"
    and o: "out_step st' =
               out_step st + int passes * int (length (filter (spec_keeps isspace max_len) files))"
    using lazy_reader_conserves[OF assms, of passes isspace max_len files st] by blast
  have "int (length (examples st')) = out_step st' mod buffer"
    if "0 < buffer \<and> 0 \<le> out_step st \<and> int (length (examples st)) = out_step st mod buffer"
    using lazy_reader_size[of buffer st passes isspace max_len files ys st'] that r by blast
  with r c o show ?thesis by blast
qed

theorem reader_filter_witness:
  "(2::int) \<noteq> 0
   \<and> (\<exists>ys st'. lazy_reader 3 (\<lambda>c. c = CHR '' '') (Some 2) 2
                   [['' a b '', ''c''], [''  '', ''d''], [''a b c'', ''d''], [''x'', ''y  '']]
                   \<lparr>examples = [], out_step = 0\<rparr> = Inr (ys, st')
           \<and> ys @ examples st' =
               concat (replicate 3
                  (map (map (py_strip (\<lambda>c. c = CHR '' '')))
                     (filter (spec_keeps (\<lambda>c. c = CHR '' '') (Some 2))
                        [['' a b '', ''c''], [''  '', ''d''], [''a b c'', ''d''], [''x'', ''y  '']])))
           \<and> out_step st' = 3 * int (length
                  (filter (spec_keeps (\<lambda>c. c = CHR '' '') (Some 2))
                        [['' a b '', ''c''], [''  '', ''d''], [''a b c'', ''d''], [''x'', ''y  '']]))
           \<and> int (length (examples st')) = out_step st' mod 2)
   \<and> filter (spec_keeps (\<lambda>c. c = CHR '' '') (Some 2))
        [['' a b '', ''c''], [''  '', ''d''], [''a b c'', ''d''], [''x'', ''y  '']]
      = [['' a b '', ''c''], [''x'', ''y  '']]
   \<and> lazy_reader 3 (\<lambda>c. c = CHR '' '') (Some 2) 2
        [['' a b '', ''c''], [''  '', ''d''], [''a b c'', ''d''], [''x'', ''y  '']]
        \<lparr>examples = [], out_step = 0\<rparr>
      = Inr ([[''a b'', ''c''], [''x'', ''y''], [''a b'', ''c''], [''x'', ''y''],
              [''a b'', ''c''], [''x'', ''y'']], \<lparr>examples = [], out_step = 6\<rparr>)"
proof -
  let ?sp = "\<lambda>c. c = CHR '' ''"
  let ?files = "[['' a b '', ''c''], [''  '', ''d''], [''a b c'', ''d''], [''x'', ''y  '']]"
  let ?st0 = "\<lparr>examples = [], out_step = 0\<rparr> :: char reader_state"
  have h: "(2::int) \<noteq> 0" by simp
  have v: "filter (spec_keeps ?sp (Some 2)) ?files = [['' a b '', ''c''], [''x'', ''y  '']]"
    by code_simp
  have e: "lazy_reader 3 ?sp (Some 2) 2 ?files ?st0
      = Inr ([[''a b'', ''c''], [''x'', ''y''], [''a b'', ''c''], [''x'', ''y''],
              [''a b'', ''c''], [''x'', ''y'']], \<lparr>examples = [], out_step = 6\<rparr>)"
    by code_simp
  obtain ys st' where r: "lazy_reader 3 ?sp (Some 2) 2 ?files ?st0 = Inr (ys, st')"
    and c: "ys @ examples st' = examples ?st0 @ concat (replicate 3
                  (map (map (py_strip ?sp)) (filter (spec_keeps ?sp (Some 2)) ?files)))"
    and o: "out_step st' = out_step ?st0
              + int 3 * int (length (filter (spec_keeps ?sp (Some 2)) ?files))"
    and z: "0 < (2::int) \<and> 0 \<le> out_step ?st0
              \<and> int (length (examples ?st0)) = out_step ?st0 mod 2
            \<longrightarrow> int (length (examples st')) = out_step st' mod 2"
    using reader_filter[OF h, of 3 ?sp "Some 2" ?files ?st0] by blast
  have c': "ys @ examples st' = concat (replicate 3
                  (map (map (py_strip ?sp)) (filter (spec_keeps ?sp (Some 2)) ?files)))"
    using c by simp
  have o': "out_step st' = 3 * int (length (filter (spec_keeps ?sp (Some 2)) ?files))"
    using o by simp
  have z': "int (length (examples st')) = out_step st' mod 2"
    using z by simp
  have "\<exists>ys st'. lazy_reader 3 ?sp (Some 2) 2 ?files ?st0 = Inr (ys, st')
           \<and> ys @ examples st' = concat (replicate 3
                  (map (map (py_strip ?sp)) (filter (spec_keeps ?sp (Some 2)) ?files)))
           \<and> out_step st' = 3 * int (length (filter (spec_keeps ?sp (Some 2)) ?files))
           \<and> int (length (examples st')) = out_step st' mod 2"
    using r c' o' z' by blast
  then show ?thesis using h v e by blast
qed

end
